theory Spec2Isabelle
  imports Main
begin

section \<open>Python values used by the benchmark driver\<close>

text \<open>
  The exceptions that the modelled part of \<^verbatim>\<open>benchmark.py\<close> can meet. Each
  raise of the source is a value of this type on the left of a sum.
\<close>

datatype py_exn =
    OverflowError
  | ZeroDivisionError
  | FileExistsError
  | NotADirectoryError
  | FileNotFoundError
  | IsADirectoryError
  | ValueError
  | UnicodeDecodeError
  | LaunchError string

subsection \<open>True division of integers and \<^verbatim>\<open>math.ceil\<close>\<close>

text \<open>
  \<^verbatim>\<open>numTiles / 1472\<close> is Python's true division: both operands are unbounded
  integers and the result is the binary64 number nearest to the exact quotient (ties to
  the even significand); a quotient that rounds to \<open>2 ^ 1024\<close> or more raises
  OverflowError. A finite binary64 value is kept as a pair \<open>(m, e)\<close> standing for
  \<open>m * 2 ^ e\<close>.
\<close>

type_synonym py_float = "int \<times> int"

function bit_length :: "int \<Rightarrow> int" where
  "bit_length n = (if n \<le> 0 then 0 else 1 + bit_length (n div 2))"
  by pat_completeness auto
termination
  by (relation "measure nat") auto

declare bit_length.simps [simp del]

definition round_half_even :: "int \<Rightarrow> int \<Rightarrow> int" where
  "round_half_even p d =
     (let f = p div d; r = p mod d
      in if 2 * r < d then f
         else if d < 2 * r then f + 1
         else if even f then f else f + 1)"

definition float_exponent :: "int \<Rightarrow> int \<Rightarrow> int" where
  "float_exponent x y =
     (let d = bit_length x - bit_length y;
          e0 = (if x * 2 ^ nat (- d) < y * 2 ^ nat d then d - 1 else d) - 52
      in max e0 (- 1074))"

definition truediv :: "int \<Rightarrow> int \<Rightarrow> py_exn + py_float" where
  "truediv a b =
     (if b = 0 then Inl ZeroDivisionError
      else if a = 0 then Inr (0, 0)
      else
        let x = \<bar>a\<bar>; y = \<bar>b\<bar>;
            e = float_exponent x y;
            m = round_half_even (x * 2 ^ nat (- e)) (y * 2 ^ nat e)
        in if 2 ^ 1024 * 2 ^ nat (- e) \<le> m * 2 ^ nat e then Inl OverflowError
           else Inr (sgn a * sgn b * m, e))"

definition math_ceil :: "py_float \<Rightarrow> int" where
  "math_ceil x = (case x of (m, e) \<Rightarrow>
     if 0 \<le> e then m * 2 ^ nat e else - ((- m) div 2 ^ nat (- e)))"

subsection \<open>The quantum a worker asks for\<close>

text \<open>
  Lines 44 to 46 of \<^verbatim>\<open>worker\<close>:
  \<^verbatim>\<open>ipus_needed = math.ceil(numTiles / 1472)\<close> and then
  \<^verbatim>\<open>ipus_needed = 4 * math.ceil(ipus_needed / 4)\<close>.
\<close>

definition ipus_needed :: "int \<Rightarrow> py_exn + int" where
  "ipus_needed numTiles =
     (case truediv numTiles 1472 of
        Inl x \<Rightarrow> Inl x
      | Inr f \<Rightarrow>
          (case truediv (math_ceil f) 4 of
             Inl x \<Rightarrow> Inl x
           | Inr g \<Rightarrow> Inr (4 * math_ceil g)))"

text \<open>The quantum as the specification words it, over exact integer arithmetic.\<close>

definition ceil_div :: "int \<Rightarrow> int \<Rightarrow> int" where
  "ceil_div n d = - ((- n) div d)"

definition roundUpToMultiple :: "int \<Rightarrow> int \<Rightarrow> int" where
  "roundUpToMultiple x g = g * ceil_div x g"

definition spec_quantum :: "int \<Rightarrow> int" where
  "spec_quantum tileCount = roundUpToMultiple (ceil_div tileCount 1472) 4"

section \<open>The accelerator pool: \<^verbatim>\<open>IPUSemaphore\<close>\<close>

text \<open>
  The class keeps \<^verbatim>\<open>total_ipus\<close> and \<^verbatim>\<open>available_ipus\<close>; the lock and the
  condition variable make \<^verbatim>\<open>__enter__\<close> and \<^verbatim>\<open>__exit__\<close> atomic, so each is
  one step of the model. Units are Python integers: nothing in the class checks their sign.
\<close>

record IPUSemaphore =
  total_ipus :: int
  available_ipus :: int

definition IPUSemaphore_init :: "int \<Rightarrow> IPUSemaphore" where
  "IPUSemaphore_init total_units = \<lparr>total_ipus = total_units, available_ipus = total_units\<rparr>"

text \<open>
  \<^verbatim>\<open>IPUContext.__enter__\<close>: the caller waits while
  \<^verbatim>\<open>available_ipus < ipus_needed\<close>; the call completes, subtracting the amount, only
  in a state where that test is false. \<open>None\<close> is "still waiting in this state".
\<close>

definition enter :: "int \<Rightarrow> IPUSemaphore \<Rightarrow> IPUSemaphore option" where
  "enter needed s =
     (if available_ipus s < needed then None
      else Some (s\<lparr>available_ipus := available_ipus s - needed\<rparr>))"

text \<open>\<^verbatim>\<open>IPUContext.__exit__\<close>: add the amount back (and wake every waiter).\<close>

definition exit_ctx :: "int \<Rightarrow> IPUSemaphore \<Rightarrow> IPUSemaphore" where
  "exit_ctx needed s = s\<lparr>available_ipus := available_ipus s + needed\<rparr>"

text \<open>
  An interleaving of clients is a list of completed operations. Beside the semaphore the
  configuration keeps the amounts of the contexts that are entered and not yet left; a
  release is possible only for such an amount, which it removes.
\<close>

datatype sem_op = Acquire int | Release int

fun sem_step :: "sem_op \<Rightarrow> IPUSemaphore \<times> int list \<Rightarrow> (IPUSemaphore \<times> int list) option" where
  "sem_step (Acquire n) (s, held) =
     (case enter n s of None \<Rightarrow> None | Some s' \<Rightarrow> Some (s', n # held))"
| "sem_step (Release n) (s, held) =
     (if n \<in> set held then Some (exit_ctx n s, remove1 n held) else None)"

fun sem_run :: "sem_op list \<Rightarrow> IPUSemaphore \<times> int list \<Rightarrow> (IPUSemaphore \<times> int list) option" where
  "sem_run [] c = Some c"
| "sem_run (op # ops) c =
     (case sem_step op c of None \<Rightarrow> None | Some c' \<Rightarrow> sem_run ops c')"

fun nonneg_amount :: "sem_op \<Rightarrow> bool" where
  "nonneg_amount (Acquire n) = (0 \<le> n)"
| "nonneg_amount (Release n) = True"

definition sem_acct :: "IPUSemaphore \<times> int list \<Rightarrow> bool" where
  "sem_acct c = (case c of (s, held) \<Rightarrow>
     total_ipus s - available_ipus s = sum_list held \<and> list_all (\<lambda>h. 0 \<le> h) held)"

section \<open>The job runner: \<^verbatim>\<open>run_program\<close>\<close>

subsection \<open>The operating system as \<^verbatim>\<open>run_program\<close> sees it\<close>

text \<open>
  \<^verbatim>\<open>run_program\<close> asks three things of its environment: \<^verbatim>\<open>os.makedirs\<close>,
  \<^verbatim>\<open>open(output_file, "w")\<close> and \<^verbatim>\<open>subprocess.run\<close>. The file system is a map
  from paths (lists of components below one root) to nodes; the external program is a
  function from the argument vector to what the launch does. Permissions, \<^verbatim>\<open>.\<close> and
  \<^verbatim>\<open>..\<close> components are not modelled.
\<close>

datatype node = Dir | File string

type_synonym path = "string list"

type_synonym filesystem = "path \<Rightarrow> node option"

fun components_acc :: "string \<Rightarrow> string \<Rightarrow> path" where
  "components_acc cur [] = (if cur = [] then [] else [cur])"
| "components_acc cur (c # cs) =
     (if c = CHR ''/''
      then (if cur = [] then components_acc [] cs else cur # components_acc [] cs)
      else components_acc (cur @ [c]) cs)"

definition components :: "string \<Rightarrow> path" where
  "components name = components_acc [] name"

text \<open>
  \<^verbatim>\<open>os.makedirs(name, exist_ok)\<close>: every missing directory on the way is created; a
  regular file on the way raises NotADirectoryError; at the last component an existing
  directory is accepted when \<open>exist_ok\<close> holds and raises FileExistsError otherwise, and
  an existing regular file raises FileExistsError in both cases. Directories created
  before the failure remain.
\<close>

fun makedirs_from :: "path \<Rightarrow> path \<Rightarrow> bool \<Rightarrow> filesystem \<Rightarrow> py_exn option \<times> filesystem" where
  "makedirs_from pre [] exist_ok f = (None, f)"
| "makedirs_from pre [c] exist_ok f =
     (case f (pre @ [c]) of
        None \<Rightarrow> (None, f(pre @ [c] \<mapsto> Dir))
      | Some Dir \<Rightarrow> (if exist_ok then (None, f) else (Some FileExistsError, f))
      | Some (File x) \<Rightarrow> (Some FileExistsError, f))"
| "makedirs_from pre (c # cs) exist_ok f =
     (case f (pre @ [c]) of
        None \<Rightarrow> makedirs_from (pre @ [c]) cs exist_ok (f(pre @ [c] \<mapsto> Dir))
      | Some Dir \<Rightarrow> makedirs_from (pre @ [c]) cs exist_ok f
      | Some (File x) \<Rightarrow> (Some NotADirectoryError, f))"

definition makedirs :: "string \<Rightarrow> bool \<Rightarrow> filesystem \<Rightarrow> py_exn option \<times> filesystem" where
  "makedirs name exist_ok f =
     (if name = [] then (Some FileNotFoundError, f)
      else makedirs_from [] (components name) exist_ok f)"

text \<open>
  \<^verbatim>\<open>open(name, "w")\<close>. The components above the last one are looked up in order: a
  missing one raises FileNotFoundError, a regular file raises NotADirectoryError. Then
  the target: a directory raises IsADirectoryError; a name that ends with a slash asks
  for a directory, so it raises NotADirectoryError on a regular file and
  IsADirectoryError on a missing entry; otherwise the file is created or truncated.
\<close>

fun walk_dirs :: "filesystem \<Rightarrow> path \<Rightarrow> path \<Rightarrow> py_exn option" where
  "walk_dirs f pre [] = None"
| "walk_dirs f pre (c # cs) =
     (case f (pre @ [c]) of
        None \<Rightarrow> Some FileNotFoundError
      | Some (File x) \<Rightarrow> Some NotADirectoryError
      | Some Dir \<Rightarrow> walk_dirs f (pre @ [c]) cs)"

definition open_w :: "string \<Rightarrow> filesystem \<Rightarrow> py_exn + filesystem" where
  "open_w name f =
     (let p = components name in
      if p = [] then Inl (if name = [] then FileNotFoundError else IsADirectoryError)
      else
        (case walk_dirs f [] (butlast p) of
           Some e \<Rightarrow> Inl e
         | None \<Rightarrow>
             (case f p of
                Some Dir \<Rightarrow> Inl IsADirectoryError
              | Some (File x) \<Rightarrow>
                  if last name = CHR ''/'' then Inl NotADirectoryError
                  else Inr (f(p \<mapsto> File []))
              | None \<Rightarrow>
                  if last name = CHR ''/'' then Inl IsADirectoryError
                  else Inr (f(p \<mapsto> File [])))))"

text \<open>
  What \<^verbatim>\<open>subprocess.run(..., stdout=out_file, stderr=subprocess.PIPE, text=True)\<close>
  does with an argument vector:

  \<^item> \<open>LaunchFails e\<close>: it raises \<open>e\<close> before a process exists (the program cannot be
    started);
  \<^item> \<open>Exits returncode out err\<close>: the process runs and ends with the return code,
    having written \<open>out\<close> to standard output, and the captured standard error decodes
    to the text \<open>err\<close>; the call returns;
  \<^item> \<open>ExitsUndecodable returncode out\<close>: the process runs and ends with the return
    code, but the bytes it wrote to standard error are not text in the expected encoding,
    and the call raises UnicodeDecodeError after the process has ended.
\<close>

datatype completed =
    LaunchFails py_exn
  | Exits int string string
  | ExitsUndecodable int string

text \<open>The return code of the process, when one was started.\<close>

fun exit_code :: "completed \<Rightarrow> int option" where
  "exit_code (LaunchFails e) = None"
| "exit_code (Exits returncode out err) = Some returncode"
| "exit_code (ExitsUndecodable returncode out) = Some returncode"

text \<open>The lines that \<^verbatim>\<open>print\<close> writes, one constructor for each format string.\<close>

datatype console_line =
    Running string string int
  | Finished string string
  | ErrorFor string string string
  | ExceptionFor string string py_exn
  | Rescheduled string string int

datatype os_call = MakeDirs string bool | Open string | Spawn "string list"

record world =
  fs :: filesystem
  console :: "console_line list"
  calls :: "os_call list"

subsection \<open>\<^verbatim>\<open>str\<close> of an integer\<close>

definition digit_char :: "int \<Rightarrow> char" where
  "digit_char d = ''0123456789'' ! nat d"

function str_pos :: "int \<Rightarrow> string" where
  "str_pos n = (if n < 10 then [digit_char n] else str_pos (n div 10) @ [digit_char (n mod 10)])"
  by pat_completeness auto
termination
  by (relation "measure nat") auto

declare str_pos.simps [simp del]

definition str_int :: "int \<Rightarrow> string" where
  "str_int n = (if n < 0 then CHR ''-'' # str_pos (- n) else str_pos n)"

subsection \<open>\<^verbatim>\<open>run_program\<close>\<close>

text \<open>
  The \<^verbatim>\<open>try\<close> statement, lines 16 to 38 of the source: what \<^verbatim>\<open>open\<close> or
  \<^verbatim>\<open>subprocess.run\<close> raise is caught by \<^verbatim>\<open>except Exception\<close>, printed and
  turned into \<^verbatim>\<open>False\<close>, also when \<^verbatim>\<open>subprocess.run\<close> raises after the
  process has ended. The process writes its standard output into the opened file. The
  requests made of the operating system are appended to \<open>calls\<close>.
\<close>

definition run_program_try ::
  "string \<Rightarrow> string \<Rightarrow> string \<Rightarrow> int \<Rightarrow> string \<Rightarrow> string
   \<Rightarrow> (string list \<Rightarrow> completed) \<Rightarrow> world \<Rightarrow> bool \<times> world" where
  "run_program_try config matrix output_file numTiles program_path profiling_flag
       subprocess_run w =
     (case open_w output_file (fs w) of
        Inl e \<Rightarrow>
          (False,
           w\<lparr>console := console w @ [ExceptionFor config matrix e],
             calls := calls w @ [Open output_file]\<rparr>)
      | Inr f2 \<Rightarrow>
          let argv = [program_path, config, matrix, ''-t'' @ str_int numTiles, profiling_flag];
              w2 = w\<lparr>fs := f2,
                     console := console w @ [Running config matrix numTiles],
                     calls := calls w @ [Open output_file, Spawn argv]\<rparr>
          in (case subprocess_run argv of
                LaunchFails e \<Rightarrow>
                  (False, w2\<lparr>console := console w2 @ [ExceptionFor config matrix e]\<rparr>)
              | ExitsUndecodable returncode out \<Rightarrow>
                  (False,
                   w2\<lparr>fs := (fs w2)(components output_file \<mapsto> File out),
                      console := console w2 @ [ExceptionFor config matrix UnicodeDecodeError]\<rparr>)
              | Exits returncode out err \<Rightarrow>
                  let w3 = w2\<lparr>fs := (fs w2)(components output_file \<mapsto> File out),
                              console := console w2 @ [Finished config matrix]\<rparr>
                  in if returncode \<noteq> 0
                     then (False, w3\<lparr>console := console w3 @ [ErrorFor config matrix err]\<rparr>)
                     else (True, w3)))"

text \<open>
  The whole function, lines 9 to 38. The profiling directory is created before the
  \<^verbatim>\<open>try\<close> statement, so what \<^verbatim>\<open>os.makedirs\<close> raises leaves the function.
\<close>

definition run_program ::
  "string \<Rightarrow> string \<Rightarrow> string \<Rightarrow> string \<Rightarrow> int \<Rightarrow> string
   \<Rightarrow> (string list \<Rightarrow> completed) \<Rightarrow> world \<Rightarrow> (py_exn + bool) \<times> world" where
  "run_program config matrix output_file profiling_dir numTiles program_path subprocess_run w =
     (if profiling_dir \<noteq> []
      then
        (case makedirs profiling_dir True (fs w) of
           (Some e, f) \<Rightarrow>
             (Inl e, w\<lparr>fs := f, calls := calls w @ [MakeDirs profiling_dir True]\<rparr>)
         | (None, f) \<Rightarrow>
             (case run_program_try config matrix output_file numTiles program_path
                     (''-d'' @ profiling_dir) subprocess_run
                     (w\<lparr>fs := f, calls := calls w @ [MakeDirs profiling_dir True]\<rparr>) of
                (b, w') \<Rightarrow> (Inr b, w')))
      else
        (case run_program_try config matrix output_file numTiles program_path []
                subprocess_run w of
           (b, w') \<Rightarrow> (Inr b, w')))"

text \<open>The requests a call added to the record of a world.\<close>

definition new_calls :: "world \<Rightarrow> world \<Rightarrow> os_call list" where
  "new_calls w w' = drop (length (calls w)) (calls w')"

text \<open>Every component of a path below \<open>pre\<close> is a directory.\<close>

fun all_dirs :: "path \<Rightarrow> path \<Rightarrow> filesystem \<Rightarrow> bool" where
  "all_dirs pre [] f = True"
| "all_dirs pre (c # cs) f = (f (pre @ [c]) = Some Dir \<and> all_dirs (pre @ [c]) cs f)"

text \<open>
  A small world for concrete runs: the directory \<^verbatim>\<open>logs\<close> exists; in the second
  one a regular file sits where a profiling directory is wanted.
\<close>

definition example_world :: world where
  "example_world = \<lparr>fs = [[''logs''] \<mapsto> Dir], console = [], calls = []\<rparr>"

definition blocked_world :: world where
  "blocked_world =
     \<lparr>fs = [[''logs''] \<mapsto> Dir, [''logs'', ''prof''] \<mapsto> File []],
      console = [], calls = []\<rparr>"

text \<open>
  A program that ends with return code 0 after writing bytes to standard error that
  cannot be decoded.
\<close>

definition garbled_program :: "string list \<Rightarrow> completed" where
  "garbled_program argv = ExitsUndecodable 0 ''o''"

section \<open>The task queue and the workers\<close>

subsection \<open>Jobs and \<^verbatim>\<open>queue.Queue\<close>\<close>

text \<open>
  A job is the tuple \<^verbatim>\<open>(config, matrix, output_file, profiling_dir, numTiles)\<close> that
  \<^verbatim>\<open>main\<close> puts on the queue and \<^verbatim>\<open>worker\<close> unpacks.
\<close>

record job =
  job_config :: string
  job_matrix :: string
  job_output_file :: string
  job_profiling_dir :: string
  job_numTiles :: int

text \<open>
  \<^verbatim>\<open>queue.Queue\<close> of the Python standard library, as far as the driver uses it: the
  backing list and the counter \<^verbatim>\<open>unfinished_tasks\<close>. \<^verbatim>\<open>put\<close> appends and
  counts up; \<^verbatim>\<open>get\<close> waits while the list is empty (\<open>None\<close>: not possible in this
  state) and takes the head; \<^verbatim>\<open>task_done\<close> counts down and raises ValueError when
  called more often than \<^verbatim>\<open>put\<close>; \<^verbatim>\<open>join\<close> returns when the counter is zero.
\<close>

record task_queue =
  items :: "job list"
  unfinished_tasks :: int

definition queue_new :: task_queue where
  "queue_new = \<lparr>items = [], unfinished_tasks = 0\<rparr>"

definition put :: "job \<Rightarrow> task_queue \<Rightarrow> task_queue" where
  "put j q = q\<lparr>items := items q @ [j], unfinished_tasks := unfinished_tasks q + 1\<rparr>"

definition get :: "task_queue \<Rightarrow> (job \<times> task_queue) option" where
  "get q = (case items q of [] \<Rightarrow> None | j # js \<Rightarrow> Some (j, q\<lparr>items := js\<rparr>))"

definition task_done :: "task_queue \<Rightarrow> py_exn + task_queue" where
  "task_done q =
     (if unfinished_tasks q - 1 < 0 then Inl ValueError
      else Inr (q\<lparr>unfinished_tasks := unfinished_tasks q - 1\<rparr>))"

definition queue_empty :: "task_queue \<Rightarrow> bool" where
  "queue_empty q = (items q = [])"

definition join_returns :: "task_queue \<Rightarrow> bool" where
  "join_returns q = (unfinished_tasks q = 0)"

subsection \<open>\<^verbatim>\<open>worker\<close> as a transition system\<close>

text \<open>
  The threads interleave at the calls that touch shared state, so a worker is its
  position in lines 41 to 55 together with the job and the quantum it holds:

  \<^item> \<open>AtLoopTest\<close>: before \<^verbatim>\<open>while not task_queue.empty()\<close>;
  \<^item> \<open>AtGet\<close>: before \<^verbatim>\<open>task_queue.get()\<close> (the quantum is computed right after it);
  \<^item> \<open>AtEnter\<close>: before \<^verbatim>\<open>__enter__\<close> of \<^verbatim>\<open>with ipu_semaphore(ipus_needed)\<close>;
  \<^item> \<open>AtRun\<close>: before \<^verbatim>\<open>run_program(...)\<close>;
  \<^item> \<open>AtPut\<close>: the attempt failed, before \<^verbatim>\<open>task_queue.put(...)\<close>;
  \<^item> \<open>AtExit\<close>: leaving the \<^verbatim>\<open>with\<close> block, before \<^verbatim>\<open>__exit__\<close>, with the
    exception that is propagating, if any;
  \<^item> \<open>AtTaskDone\<close>: before \<^verbatim>\<open>task_queue.task_done()\<close>;
  \<^item> \<open>Returned\<close>: the loop was left and the thread ended;
  \<^item> \<open>Died\<close>: an exception left \<^verbatim>\<open>worker\<close> and ended the thread.
\<close>

datatype pc =
    AtLoopTest
  | AtGet
  | AtEnter job int
  | AtRun job int
  | AtPut job int
  | AtExit job int "py_exn option"
  | AtTaskDone
  | Returned
  | Died py_exn

record sched =
  task_q :: task_queue
  ipu_semaphore :: IPUSemaphore
  os :: world
  workers :: "pc list"

text \<open>
  One event is one step of one worker. The step at \<open>AtRun\<close> runs the external job to
  its end and needs to know what the program does; every other step needs nothing.
\<close>

datatype event = Step nat | RunStep nat "string list \<Rightarrow> completed"

definition set_pc :: "nat \<Rightarrow> pc \<Rightarrow> sched \<Rightarrow> sched" where
  "set_pc w p s = s\<lparr>workers := (workers s)[w := p]\<rparr>"

definition worker_step :: "nat \<Rightarrow> sched \<Rightarrow> sched option" where
  "worker_step w s =
     (case workers s ! w of
        AtLoopTest \<Rightarrow>
          Some (set_pc w (if queue_empty (task_q s) then Returned else AtGet) s)
      | AtGet \<Rightarrow>
          (case get (task_q s) of
             None \<Rightarrow> None
           | Some (j, q') \<Rightarrow>
               Some (set_pc w
                      (case ipus_needed (job_numTiles j) of
                         Inl e \<Rightarrow> Died e
                       | Inr n \<Rightarrow> AtEnter j n)
                      (s\<lparr>task_q := q'\<rparr>)))
      | AtEnter j n \<Rightarrow>
          (case enter n (ipu_semaphore s) of
             None \<Rightarrow> None
           | Some sem' \<Rightarrow> Some (set_pc w (AtRun j n) (s\<lparr>ipu_semaphore := sem'\<rparr>)))
      | AtRun j n \<Rightarrow> None
      | AtPut j n \<Rightarrow>
          Some (set_pc w (AtExit j n None)
                 (s\<lparr>task_q := put j (task_q s),
                    os := (os s)\<lparr>console := console (os s)
                             @ [Rescheduled (job_config j) (job_matrix j) (job_numTiles j)]\<rparr>\<rparr>))
      | AtExit j n x \<Rightarrow>
          Some (set_pc w (case x of None \<Rightarrow> AtTaskDone | Some e \<Rightarrow> Died e)
                 (s\<lparr>ipu_semaphore := exit_ctx n (ipu_semaphore s)\<rparr>))
      | AtTaskDone \<Rightarrow>
          (case task_done (task_q s) of
             Inl e \<Rightarrow> Some (set_pc w (Died e) s)
           | Inr q' \<Rightarrow> Some (set_pc w AtLoopTest (s\<lparr>task_q := q'\<rparr>)))
      | Returned \<Rightarrow> None
      | Died e \<Rightarrow> None)"

definition worker_run :: "string \<Rightarrow> nat \<Rightarrow> (string list \<Rightarrow> completed) \<Rightarrow> sched \<Rightarrow> sched option" where
  "worker_run program_path w subprocess_run s =
     (case workers s ! w of
        AtRun j n \<Rightarrow>
          (case run_program (job_config j) (job_matrix j) (job_output_file j)
                  (job_profiling_dir j) (job_numTiles j) program_path subprocess_run (os s) of
             (Inl e, w') \<Rightarrow> Some (set_pc w (AtExit j n (Some e)) (s\<lparr>os := w'\<rparr>))
           | (Inr successfull, w') \<Rightarrow>
               Some (set_pc w (if \<not> successfull then AtPut j n else AtExit j n None)
                      (s\<lparr>os := w'\<rparr>)))
      | _ \<Rightarrow> None)"

fun step :: "string \<Rightarrow> event \<Rightarrow> sched \<Rightarrow> sched option" where
  "step program_path (Step w) s =
     (if w < length (workers s) then worker_step w s else None)"
| "step program_path (RunStep w subprocess_run) s =
     (if w < length (workers s) then worker_run program_path w subprocess_run s else None)"

fun run :: "string \<Rightarrow> event list \<Rightarrow> sched \<Rightarrow> sched option" where
  "run program_path [] s = Some s"
| "run program_path (ev # evs) s =
     (case step program_path ev s of None \<Rightarrow> None | Some s' \<Rightarrow> run program_path evs s')"

text \<open>
  \<^verbatim>\<open>main\<close>, lines 120 to 153: the jobs are put on a new queue one after the other, the
  semaphore is built and the worker threads are started.
\<close>

definition init_sched :: "job list \<Rightarrow> int \<Rightarrow> nat \<Rightarrow> world \<Rightarrow> sched" where
  "init_sched jobs total_units max_workers w =
     \<lparr>task_q = fold put jobs queue_new,
      ipu_semaphore = IPUSemaphore_init total_units,
      os = w,
      workers = replicate max_workers AtLoopTest\<rparr>"

text \<open>
  A worker has an attempt in hand from the moment \<^verbatim>\<open>get\<close> returned until
  \<^verbatim>\<open>task_done\<close> has returned; a thread that an exception ended keeps its attempt
  in hand for ever.
\<close>

fun in_hand :: "pc \<Rightarrow> bool" where
  "in_hand AtLoopTest = False"
| "in_hand AtGet = False"
| "in_hand (AtEnter j n) = True"
| "in_hand (AtRun j n) = True"
| "in_hand (AtPut j n) = True"
| "in_hand (AtExit j n x) = True"
| "in_hand AtTaskDone = True"
| "in_hand Returned = False"
| "in_hand (Died e) = True"

definition event_worker :: "event \<Rightarrow> nat" where
  "event_worker ev = (case ev of Step w \<Rightarrow> w | RunStep w sp \<Rightarrow> w)"

text \<open>What an observer can compare of a state: the queue, the semaphore and the workers.\<close>

definition observe :: "sched \<Rightarrow> task_queue \<times> IPUSemaphore \<times> pc list" where
  "observe s = (task_q s, ipu_semaphore s, workers s)"

text \<open>A job for concrete runs, and a program that fails on every launch.\<close>

definition example_job :: job where
  "example_job =
     \<lparr>job_config = ''cfg'', job_matrix = ''-mA'', job_output_file = ''logs/out.txt'',
      job_profiling_dir = [], job_numTiles = 5888\<rparr>"

definition failing_program :: "string list \<Rightarrow> completed" where
  "failing_program argv = Exits 1 [] ''boom''"

definition succeeding_program :: "string list \<Rightarrow> completed" where
  "succeeding_program argv = Exits 0 [] []"

text \<open>
  The accounting of \<^verbatim>\<open>unfinished_tasks\<close>: it counts the queued jobs and the attempts
  in the workers' hands.
\<close>

definition accounted :: "sched \<Rightarrow> bool" where
  "accounted s \<longleftrightarrow>
     unfinished_tasks (task_q s)
       = int (length (items (task_q s))) + int (length (filter in_hand (workers s)))"

text \<open>The units a worker holds: those of the \<^verbatim>\<open>with\<close> block it is inside of.\<close>

fun holds :: "pc \<Rightarrow> int" where
  "holds (AtRun j n) = n"
| "holds (AtPut j n) = n"
| "holds (AtExit j n x) = n"
| "holds p = 0"

text \<open>A state in which the only worker is about to run the example job.\<close>

definition running_sched :: sched where
  "running_sched =
     \<lparr>task_q = \<lparr>items = [], unfinished_tasks = 1\<rparr>,
      ipu_semaphore = \<lparr>total_ipus = 16, available_ipus = 12\<rparr>,
      os = example_world,
      workers = [AtRun example_job 4]\<rparr>"

text \<open>
  A job with a profiling directory, and a state in which the only worker is about to run
  it in the world where a regular file sits at that path.
\<close>

definition profiled_job :: job where
  "profiled_job =
     \<lparr>job_config = ''cfg'', job_matrix = ''-mA'', job_output_file = ''logs/out.txt'',
      job_profiling_dir = ''logs/prof'', job_numTiles = 5888\<rparr>"

definition raising_sched :: sched where
  "raising_sched =
     \<lparr>task_q = \<lparr>items = [], unfinished_tasks = 1\<rparr>,
      ipu_semaphore = \<lparr>total_ipus = 16, available_ipus = 12\<rparr>,
      os = blocked_world,
      workers = [AtRun profiled_job 4]\<rparr>"

section \<open>Properties of the quantum computation\<close>

lemma bit_length_le: "n < 2 ^ k \<Longrightarrow> bit_length n \<le> int k"
proof (induction k arbitrary: n)
  case 0
  then show ?case by (simp add: bit_length.simps)
next
  case (Suc k)
  show ?case
  proof (cases "n \<le> 0")
    case True
    then show ?thesis by (simp add: bit_length.simps)
  next
    case False
    from Suc.prems have "n div 2 < 2 ^ k" by simp
    then have "bit_length (n div 2) \<le> int k" by (rule Suc.IH)
    with False show ?thesis by (subst bit_length.simps) simp
  qed
qed

lemma bit_length_1472: "bit_length 1472 = 11"
  by code_simp

lemma bit_length_4: "bit_length 4 = 3"
  by code_simp

lemma int_div_less_bound:
  fixes b c x :: int
  assumes "0 < b" "x < c * b"
  shows "x div b < c"
proof (rule ccontr)
  assume "\<not> x div b < c"
  then have "c \<le> x div b" by simp
  then have "c * b \<le> (x div b) * b"
    using assms(1) by (simp add: mult_right_mono)
  moreover have "(x div b) * b \<le> x"
    using assms(1) pos_mod_sign [of b x] div_mult_mod_eq [of x b] by linarith
  ultimately show False using assms(2) by linarith
qed

lemma round_half_even_range: "0 < d \<Longrightarrow> p div d \<le> round_half_even p d \<and> round_half_even p d \<le> p div d + 1"
  by (simp add: round_half_even_def Let_def)

lemma round_half_even_exact:
  assumes "0 < b"
  shows "round_half_even (q * b) b = q"
  using assms by (simp add: round_half_even_def Let_def)

lemma round_half_even_between:
  fixes b q r c :: int
  assumes b: "0 < b" and r: "0 < r" "r < b" and c: "0 < c" "b < 2 * c"
  shows "q * c < round_half_even ((q * b + r) * c) b
       \<and> round_half_even ((q * b + r) * c) b \<le> (q + 1) * c"
proof -
  define p where "p = (q * b + r) * c"
  define g where "g = (r * c) div b"
  have p: "p = (q * c) * b + r * c" by (simp add: p_def algebra_simps)
  have rc: "0 < r * c" "r * c < c * b" using r c b by simp_all
  have fdiv: "p div b = q * c + g"
    using b by (simp add: p g_def)
  have fmod: "p mod b = (r * c) mod b"
    by (simp add: p)
  have up: "g < c"
    unfolding g_def using b rc(2) by (rule int_div_less_bound)
  have lo: "0 \<le> g"
    using rc b by (simp add: g_def pos_imp_zdiv_nonneg_iff)
  have range: "p div b \<le> round_half_even p b" "round_half_even p b \<le> p div b + 1"
    using round_half_even_range [OF b, of p] by simp_all
  have qc: "(q + 1) * c = q * c + c" by (simp add: algebra_simps)
  have upper: "round_half_even p b \<le> (q + 1) * c"
    using range(2) up fdiv qc by linarith
  have lower: "q * c < round_half_even p b"
  proof (cases "g = 0")
    case False
    with lo have "0 < g" by simp
    then show ?thesis
      using range(1) fdiv by linarith
  next
    case True
    then have small: "r * c < b"
      using rc b by (simp add: g_def zdiv_eq_0_iff)
    then have m: "p mod b = r * c" using rc by (simp add: fmod)
    have cr: "1 * c \<le> r * c" using r(1) c(1) by (intro mult_right_mono) simp_all
    have big: "b < 2 * (r * c)" using cr c(2) by linarith
    have "round_half_even p b = p div b + 1"
      using big by (simp add: round_half_even_def Let_def m)
    then show ?thesis using fdiv True by simp
  qed
  show ?thesis using lower upper by (simp add: p_def)
qed

lemma neg_div_between:
  fixes m q c :: int
  assumes "0 < c" "q * c < m" "m \<le> (q + 1) * c"
  shows "- ((- m) div c) = q + 1"
proof -
  have "(- m) div c = - (q + 1)"
  proof (rule int_div_pos_eq [where r = "(q + 1) * c - m"])
    show "- m = c * - (q + 1) + ((q + 1) * c - m)" by (simp add: algebra_simps)
    show "0 \<le> (q + 1) * c - m" using assms by simp
    show "(q + 1) * c - m < c" using assms by (simp add: algebra_simps)
  qed
  then show ?thesis by simp
qed


lemma ceil_div_exact:
  fixes a b :: int
  assumes "0 < b" "a mod b = 0"
  shows "ceil_div a b = a div b"
proof -
  from assms(2) have "b dvd a" by (simp add: dvd_eq_mod_eq_0)
  then show ?thesis by (simp add: ceil_div_def div_minus_right dvd_neg_div)
qed

lemma ceil_div_inexact:
  fixes a b :: int
  assumes "0 < b" "0 < a mod b"
  shows "ceil_div a b = a div b + 1"
proof -
  have a: "a = (a div b) * b + a mod b" by simp
  have lt: "a mod b < b" using assms(1) by simp
  have "(a div b) * b < a" using a assms(2) by linarith
  moreover have "(a div b + 1) * b = (a div b) * b + b"
    by (simp add: algebra_simps)
  then have "a \<le> (a div b + 1) * b"
    using a lt by linarith
  ultimately show ?thesis
    unfolding ceil_div_def using assms(1) by (intro neg_div_between) simp_all
qed

lemma math_ceil_truediv:
  fixes a b :: int
  assumes a: "0 < a" and b: "0 < b"
    and e: "float_exponent a b \<le> 0"
    and fine: "a mod b = 0 \<or> b < 2 * 2 ^ nat (- float_exponent a b)"
    and small: "ceil_div a b < 2 ^ 1024"
  shows "\<exists>f. truediv a b = Inr f \<and> math_ceil f = ceil_div a b"
proof -
  define k where "k = nat (- float_exponent a b)"
  define c :: int where "c = 2 ^ k"
  define m where "m = round_half_even (a * c) b"
  have c: "0 < c" by (simp add: c_def)
  have ne: "nat (float_exponent a b) = 0" using e by simp
  have td: "truediv a b = (if 2 ^ 1024 * c \<le> m then Inl OverflowError
                           else Inr (m, float_exponent a b))"
    using a b by (simp add: truediv_def Let_def ne k_def c_def m_def)
  have mc: "math_ceil (m, float_exponent a b) = - ((- m) div c)"
    using e by (cases "float_exponent a b = 0") (simp_all add: math_ceil_def c_def k_def)
  have a_eq: "a = (a div b) * b + a mod b" by simp
  have res: "- ((- m) div c) = ceil_div a b \<and> m \<le> ceil_div a b * c"
  proof (cases "a mod b = 0")
    case True
    then have "b dvd a" by (simp add: dvd_eq_mod_eq_0)
    then have ab: "a div b * b = a" by simp
    have "a * c = (a div b * b) * c" by (simp only: ab)
    also have "\<dots> = (a div b * c) * b" by (simp only: mult_ac)
    finally have "m = round_half_even ((a div b * c) * b) b"
      by (simp only: m_def)
    then have "m = a div b * c"
      using round_half_even_exact [OF b, of "a div b * c"] by (simp only:)
    moreover have "(- (a div b * c)) div c = - (a div b)"
      using c by (simp flip: mult_minus_left)
    ultimately show ?thesis
      using c ceil_div_exact [OF b True] by simp
  next
    case False
    have "0 \<le> a mod b" using b by simp
    with False have "0 < a mod b" by linarith
    moreover have "a mod b < b" using b by simp
    ultimately have r: "0 < a mod b" "a mod b < b" .
    from False fine have bc: "b < 2 * c" by (simp add: c_def k_def)
    have "a * c = (a div b * b + a mod b) * c" by simp
    then have "m = round_half_even ((a div b * b + a mod b) * c) b"
      by (simp only: m_def)
    then have btw: "a div b * c < m" "m \<le> (a div b + 1) * c"
      using round_half_even_between [OF b r c bc, of "a div b"] by simp_all
    have "- ((- m) div c) = a div b + 1"
      using c btw by (rule neg_div_between)
    then show ?thesis
      using ceil_div_inexact [OF b r(1)] btw(2) by simp
  qed
  have "ceil_div a b * c < 2 ^ 1024 * c"
    using small c by simp
  then have "\<not> 2 ^ 1024 * c \<le> m" using res by linarith
  then show ?thesis using td mc res by simp
qed

lemma float_exponent_le:
  assumes "a < 2 ^ k"
  shows "float_exponent a b \<le> max (int k - bit_length b - 52) (- 1074)"
proof -
  have "bit_length a \<le> int k" using assms by (rule bit_length_le)
  then show ?thesis by (auto simp add: float_exponent_def Let_def)
qed

lemma float_exponent_1472:
  assumes "a < 1472 * 2 ^ 43"
  shows "float_exponent a 1472 \<le> - 10"
proof -
  have "a < 2 ^ 54" using assms by simp
  then have bl: "bit_length a \<le> 54" using bit_length_le [of a 54] by simp
  show ?thesis
  proof (cases "bit_length a \<le> 53")
    case True
    then show ?thesis by (simp add: float_exponent_def Let_def bit_length_1472)
  next
    case False
    with bl have "bit_length a = 54" by simp
    then show ?thesis using assms
      by (simp add: float_exponent_def Let_def bit_length_1472)
  qed
qed

lemma pow2_ge:
  fixes e :: int
  assumes "e \<le> - int K"
  shows "(2::int) ^ K \<le> 2 ^ nat (- e)"
  using assms by (intro power_increasing) simp_all


lemma ceil_div_1472_bounds:
  assumes "0 < n" "n \<le> 1472 * 2 ^ 43"
  shows "0 < ceil_div n 1472" "ceil_div n 1472 \<le> 2 ^ 43"
  using assms by (simp_all add: ceil_div_def)

lemma ceil_truediv_1472:
  assumes n: "0 < n" "n \<le> 1472 * 2 ^ 43"
  shows "\<exists>f. truediv n 1472 = Inr f \<and> math_ceil f = ceil_div n 1472"
proof (rule math_ceil_truediv)
  show "0 < n" by (rule n(1))
  show "(0::int) < 1472" by simp
  have "n < 2 ^ 54" using n(2) by simp
  then have "float_exponent n 1472 \<le> max (int 54 - bit_length 1472 - 52) (- 1074)"
    by (rule float_exponent_le)
  then show "float_exponent n 1472 \<le> 0" by (simp add: bit_length_1472)
  show "n mod 1472 = 0 \<or> (1472::int) < 2 * 2 ^ nat (- float_exponent n 1472)"
  proof (cases "n = 1472 * 2 ^ 43")
    case True
    then show ?thesis by simp
  next
    case False
    with n(2) have "n < 1472 * 2 ^ 43" by simp
    then have "float_exponent n 1472 \<le> - int 10"
      using float_exponent_1472 [of n] by simp
    then have "(2::int) ^ 10 \<le> 2 ^ nat (- float_exponent n 1472)"
      by (rule pow2_ge)
    then show ?thesis by simp
  qed
  show "ceil_div n 1472 < 2 ^ 1024"
    using ceil_div_1472_bounds(2) [OF n] by simp
qed

lemma ceil_div_4_bounds:
  assumes "0 < k" "k \<le> 2 ^ 43"
  shows "0 < ceil_div k 4" "ceil_div k 4 \<le> 2 ^ 43"
  using assms by (simp_all add: ceil_div_def)

lemma ceil_truediv_4:
  assumes k: "0 < k" "k \<le> 2 ^ 43"
  shows "\<exists>g. truediv k 4 = Inr g \<and> math_ceil g = ceil_div k 4"
proof (rule math_ceil_truediv)
  show "0 < k" by (rule k(1))
  show "(0::int) < 4" by simp
  have "k < 2 ^ 44" using k(2) by simp
  then have "float_exponent k 4 \<le> max (int 44 - bit_length 4 - 52) (- 1074)"
    by (rule float_exponent_le)
  then have e: "float_exponent k 4 \<le> - int 11" by (simp add: bit_length_4)
  then show "float_exponent k 4 \<le> 0" by simp
  from e have "(2::int) ^ 11 \<le> 2 ^ nat (- float_exponent k 4)"
    by (rule pow2_ge)
  then show "k mod 4 = 0 \<or> (4::int) < 2 * 2 ^ nat (- float_exponent k 4)" by simp
  show "ceil_div k 4 < 2 ^ 1024"
    using ceil_div_4_bounds(2) [OF k] by simp
qed

lemma quantum_examples:
  "ipus_needed 1 = Inr 4 \<and> ipus_needed 1472 = Inr 4 \<and> ipus_needed 1473 = Inr 4
   \<and> ipus_needed 5888 = Inr 4 \<and> ipus_needed 5889 = Inr 8"
  by code_simp

text \<open>
  Claim C1, as amended. For every tile count from 1 up to \<open>1472 * 2 ^ 43\<close> the quantum
  that \<^verbatim>\<open>worker\<close> computes is \<open>roundUpToMultiple (ceil (tileCount / 1472)) 4\<close>
  in exact arithmetic, it is positive and it is a multiple of 4; tile counts 1, 1472,
  1473 and 5888 give 4 and 5889 gives 8. The bound is the largest one below which the
  floating-point quotient of the source still has the exact quotient's ceiling.
\<close>

theorem quantum_matches_spec_in_range:
  assumes "1 \<le> tileCount" "tileCount \<le> 1472 * 2 ^ 43"
  shows "ipus_needed tileCount = Inr (spec_quantum tileCount)
       \<and> 0 < spec_quantum tileCount \<and> 4 dvd spec_quantum tileCount
       \<and> ipus_needed 1 = Inr 4 \<and> ipus_needed 1472 = Inr 4 \<and> ipus_needed 1473 = Inr 4
       \<and> ipus_needed 5888 = Inr 4 \<and> ipus_needed 5889 = Inr 8"
proof -
  have n: "0 < tileCount" using assms(1) by simp
  obtain f where f: "truediv tileCount 1472 = Inr f" "math_ceil f = ceil_div tileCount 1472"
    using ceil_truediv_1472 [OF n assms(2)] by blast
  have k: "0 < ceil_div tileCount 1472" "ceil_div tileCount 1472 \<le> 2 ^ 43"
    using ceil_div_1472_bounds [OF n assms(2)] by simp_all
  obtain g where g: "truediv (ceil_div tileCount 1472) 4 = Inr g"
      "math_ceil g = ceil_div (ceil_div tileCount 1472) 4"
    using ceil_truediv_4 [OF k] by blast
  have "ipus_needed tileCount = Inr (spec_quantum tileCount)"
    by (simp add: ipus_needed_def f g spec_quantum_def roundUpToMultiple_def)
  moreover have "0 < spec_quantum tileCount"
    using ceil_div_4_bounds(1) [OF k] by (simp add: spec_quantum_def roundUpToMultiple_def)
  moreover have "4 dvd spec_quantum tileCount"
    by (simp add: spec_quantum_def roundUpToMultiple_def)
  ultimately show ?thesis using quantum_examples by simp
qed

theorem quantum_matches_spec_in_range_witness:
  "(1::int) \<le> 5889 \<and> (5889::int) \<le> 1472 * 2 ^ 43
   \<and> ipus_needed 5889 = Inr (spec_quantum 5889) \<and> spec_quantum 5889 = 8"
proof -
  have s: "spec_quantum 5889 = 8" by code_simp
  show ?thesis using quantum_matches_spec_in_range [of 5889] s by simp
qed

text \<open>
  Claim C1 as stated, for every positive tile count, fails one step above the bound:
  at \<open>1472 * 2 ^ 43 + 1\<close> the quotient rounds down to \<open>2 ^ 43\<close> before
  \<^verbatim>\<open>math.ceil\<close> sees it, and the worker asks for \<open>2 ^ 43\<close> units where the
  exact formula gives \<open>2 ^ 43 + 4\<close>.
\<close>

theorem quantum_large_counterexample:
  "(0::int) < 12947848928690177
   \<and> ipus_needed 12947848928690177 = Inr 8796093022208
   \<and> spec_quantum 12947848928690177 = 8796093022212"
  by code_simp

section \<open>Properties of the accelerator pool\<close>

lemma sum_list_remove1_int:
  fixes n :: int
  shows "n \<in> set held \<Longrightarrow> sum_list held = n + sum_list (remove1 n held)"
  by (induction held) auto

lemma list_all_remove1: "list_all P xs \<Longrightarrow> list_all P (remove1 x xs)"
  by (induction xs) auto

lemma sum_list_nonneg_int:
  fixes xs :: "int list"
  shows "list_all (\<lambda>h. 0 \<le> h) xs \<Longrightarrow> 0 \<le> sum_list xs"
  by (induction xs) auto

lemma sem_step_acct:
  assumes "sem_acct c" "nonneg_amount op" "sem_step op c = Some c'"
  shows "sem_acct c'"
proof (cases c)
  case (Pair s held)
  show ?thesis
  proof (cases op)
    case (Acquire n)
    with assms Pair show ?thesis
      by (auto simp: sem_acct_def enter_def split: if_splits)
  next
    case (Release n)
    with assms Pair have mem: "n \<in> set held" and c': "c' = (exit_ctx n s, remove1 n held)"
      by (auto split: if_splits)
    from assms(1) Pair have inv: "total_ipus s - available_ipus s = sum_list held"
        "list_all (\<lambda>h. 0 \<le> h) held"
      by (auto simp: sem_acct_def)
    have rest: "list_all (\<lambda>h. 0 \<le> h) (remove1 n held)"
      using inv(2) by (rule list_all_remove1)
    have sum: "sum_list held = n + sum_list (remove1 n held)"
      using mem by (rule sum_list_remove1_int)
    with inv rest show ?thesis
      by (simp add: c' sem_acct_def exit_ctx_def)
  qed
qed

lemma sem_step_lower:
  assumes "sem_acct c" "0 \<le> available_ipus (fst c)" "sem_step op c = Some c'"
  shows "0 \<le> available_ipus (fst c')"
proof (cases c)
  case (Pair s held)
  show ?thesis
  proof (cases op)
    case (Acquire n)
    with assms Pair show ?thesis
      by (auto simp: enter_def split: if_splits)
  next
    case (Release n)
    with assms Pair have mem: "n \<in> set held" and c': "c' = (exit_ctx n s, remove1 n held)"
      by (auto split: if_splits)
    from assms(1) Pair have "list_all (\<lambda>h. 0 \<le> h) held"
      by (auto simp: sem_acct_def)
    then have "0 \<le> n" using mem by (auto simp: list_all_iff)
    then show ?thesis using assms(2) Pair by (simp add: c' exit_ctx_def)
  qed
qed

lemma sem_run_acct:
  "sem_acct c \<Longrightarrow> list_all nonneg_amount ops \<Longrightarrow> sem_run ops c = Some c' \<Longrightarrow> sem_acct c'"
proof (induction ops arbitrary: c)
  case Nil
  then show ?case by simp
next
  case (Cons op ops)
  from Cons.prems(3) obtain c1 where c1: "sem_step op c = Some c1" "sem_run ops c1 = Some c'"
    by (auto split: option.splits)
  have "sem_acct c1" using Cons.prems(1,2) c1(1) by (auto intro: sem_step_acct)
  then show ?case using Cons.IH Cons.prems(2) c1(2) by simp
qed

lemma sem_run_lower:
  "sem_acct c \<Longrightarrow> 0 \<le> available_ipus (fst c) \<Longrightarrow> list_all nonneg_amount ops
   \<Longrightarrow> sem_run ops c = Some c' \<Longrightarrow> 0 \<le> available_ipus (fst c')"
proof (induction ops arbitrary: c)
  case Nil
  then show ?case by simp
next
  case (Cons op ops)
  from Cons.prems(4) obtain c1 where c1: "sem_step op c = Some c1" "sem_run ops c1 = Some c'"
    by (auto split: option.splits)
  have "sem_acct c1" using Cons.prems(1,3) c1(1) by (auto intro: sem_step_acct)
  moreover have "0 \<le> available_ipus (fst c1)"
    using Cons.prems(1,2) c1(1) by (rule sem_step_lower)
  ultimately show ?case using Cons.IH Cons.prems(3) c1(2) by simp
qed

lemma sem_step_total:
  "sem_step op (s, held) = Some (s', held') \<Longrightarrow> total_ipus s' = total_ipus s"
  by (cases op) (auto simp: enter_def exit_ctx_def split: if_splits option.splits)

lemma sem_run_total:
  "sem_run ops (s, held) = Some (s', held') \<Longrightarrow> total_ipus s' = total_ipus s"
proof (induction ops arbitrary: s held)
  case Nil
  then show ?case by simp
next
  case (Cons op ops)
  then show ?case
    by (auto split: option.splits dest: sem_step_total)
qed

lemma sem_acct_init: "sem_acct (IPUSemaphore_init totalUnits, [])"
  by (simp add: sem_acct_def IPUSemaphore_init_def)

text \<open>
  Claim C3. The pool has a size \<open>totalUnits\<close> that is not negative, and the callers of
  \<^verbatim>\<open>acquire\<close> keep its contract, which asks for a positive amount; the theorem needs
  no more than amounts that are not negative. Then after any interleaving of completed
  acquisitions and of releases that each match an acquisition still in flight,
  \<open>availableUnits\<close> lies in \<open>[0, totalUnits]\<close> and \<open>totalUnits - availableUnits\<close>
  is the sum of the amounts in flight. Every prefix of an interleaving is an
  interleaving, so this covers every reachable state.
\<close>

theorem semaphore_bounds_nonneg:
  assumes "0 \<le> totalUnits" and "list_all nonneg_amount ops"
    and "sem_run ops (IPUSemaphore_init totalUnits, []) = Some (s, held)"
  shows "0 \<le> available_ipus s \<and> available_ipus s \<le> totalUnits
       \<and> totalUnits - available_ipus s = sum_list held"
proof -
  have acct: "sem_acct (s, held)"
    using sem_acct_init assms(2,3) by (rule sem_run_acct)
  have tot: "total_ipus s = totalUnits"
    using sem_run_total [OF assms(3)] by (simp add: IPUSemaphore_init_def)
  have "0 \<le> available_ipus (fst (s, held))"
    using sem_acct_init _ assms(2,3)
    by (rule sem_run_lower) (simp add: IPUSemaphore_init_def assms(1))
  moreover have "0 \<le> sum_list held"
    using acct by (auto simp: sem_acct_def intro: sum_list_nonneg_int)
  ultimately show ?thesis using acct tot by (simp add: sem_acct_def)
qed

theorem semaphore_bounds_nonneg_witness:
  "(0::int) \<le> 16 \<and> list_all nonneg_amount [Acquire 8, Acquire 4, Release 8]
   \<and> sem_run [Acquire 8, Acquire 4, Release 8] (IPUSemaphore_init 16, [])
       = Some (\<lparr>total_ipus = 16, available_ipus = 12\<rparr>, [4])
   \<and> (0::int) \<le> 12 \<and> (12::int) \<le> 16 \<and> (16::int) - 12 = sum_list [4]"
proof -
  have r: "sem_run [Acquire 8, Acquire 4, Release 8] (IPUSemaphore_init 16, [])
       = Some (\<lparr>total_ipus = 16, available_ipus = 12\<rparr>, [4])"
    by (simp add: IPUSemaphore_init_def enter_def exit_ctx_def)
  have a: "list_all nonneg_amount [Acquire 8, Acquire 4, Release 8]" by simp
  show ?thesis
    using semaphore_bounds_nonneg [OF _ a r] r by simp
qed

text \<open>
  Claim C7. For every \<open>n\<close> greater than \<open>totalUnits\<close>, in every state reached by an
  interleaving of completed acquisitions, of amounts that are not negative as the
  contract of \<^verbatim>\<open>acquire\<close> asks, and matching releases, \<open>availableUnits < n\<close>: the
  wait test of \<^verbatim>\<open>__enter__\<close> holds, so the call does not complete in any such state.
  The caller waits forever and nothing is raised.
\<close>

theorem oversized_acquire_blocks:
  assumes "totalUnits < n" and "list_all nonneg_amount ops"
    and "sem_run ops (IPUSemaphore_init totalUnits, []) = Some (s, held)"
  shows "available_ipus s < n \<and> enter n s = None"
proof -
  have acct: "sem_acct (s, held)"
    using sem_acct_init assms(2,3) by (rule sem_run_acct)
  have tot: "total_ipus s = totalUnits"
    using sem_run_total [OF assms(3)] by (simp add: IPUSemaphore_init_def)
  have "0 \<le> sum_list held"
    using acct by (auto simp: sem_acct_def intro: sum_list_nonneg_int)
  then have "available_ipus s \<le> totalUnits"
    using acct tot by (simp add: sem_acct_def)
  then show ?thesis using assms(1) by (simp add: enter_def)
qed

theorem oversized_acquire_blocks_witness:
  "(16::int) < 20 \<and> list_all nonneg_amount [Acquire 8, Acquire 8, Release 8]
   \<and> sem_run [Acquire 8, Acquire 8, Release 8] (IPUSemaphore_init 16, [])
       = Some (\<lparr>total_ipus = 16, available_ipus = 8\<rparr>, [8])
   \<and> enter 20 \<lparr>total_ipus = 16, available_ipus = 8\<rparr> = None"
proof -
  have r: "sem_run [Acquire 8, Acquire 8, Release 8] (IPUSemaphore_init 16, [])
       = Some (\<lparr>total_ipus = 16, available_ipus = 8\<rparr>, [8])"
    by (simp add: IPUSemaphore_init_def enter_def exit_ctx_def)
  have a: "list_all nonneg_amount [Acquire 8, Acquire 8, Release 8]" by simp
  show ?thesis
    using oversized_acquire_blocks [OF _ a r, of 20] r by simp
qed

section \<open>Properties of the job runner\<close>

lemma try_calls:
  "calls (snd (run_program_try c m out n p flag sp w)) =
     calls w @ (case open_w out (fs w) of
                  Inl e \<Rightarrow> [Open out]
                | Inr f2 \<Rightarrow> [Open out, Spawn [p, c, m, ''-t'' @ str_int n, flag]])"
  by (simp add: run_program_try_def Let_def split: sum.splits completed.splits)

lemma try_true_iff:
  "fst (run_program_try c m out n p flag sp w) \<longleftrightarrow>
     (\<exists>f2. open_w out (fs w) = Inr f2)
     \<and> (\<exists>so se. sp [p, c, m, ''-t'' @ str_int n, flag] = Exits 0 so se)"
  by (auto simp add: run_program_try_def Let_def split: sum.splits completed.splits)

lemma try_error_logged:
  assumes "open_w out (fs w) = Inr f2"
    and "sp [p, c, m, ''-t'' @ str_int n, flag] = Exits rc so se" and "rc \<noteq> 0"
  shows "\<not> fst (run_program_try c m out n p flag sp w)
       \<and> last (console (snd (run_program_try c m out n p flag sp w))) = ErrorFor c m se"
  using assms by (simp add: run_program_try_def Let_def)

lemma try_undecodable_logged:
  assumes "open_w out (fs w) = Inr f2"
    and "sp [p, c, m, ''-t'' @ str_int n, flag] = ExitsUndecodable rc so"
  shows "\<not> fst (run_program_try c m out n p flag sp w)
       \<and> last (console (snd (run_program_try c m out n p flag sp w)))
           = ExceptionFor c m UnicodeDecodeError"
  using assms by (simp add: run_program_try_def Let_def)

lemma open_w_examples:
  "open_w ''logs/out.txt'' [[''logs''] \<mapsto> Dir]
     = Inr [[''logs''] \<mapsto> Dir, [''logs'', ''out.txt''] \<mapsto> File []]"
  "open_w ''logs/out.txt/'' [[''logs''] \<mapsto> Dir] = Inl IsADirectoryError"
  "open_w ''logs/out.txt/'' [[''logs''] \<mapsto> Dir, [''logs'', ''out.txt''] \<mapsto> File ''x'']
     = Inl NotADirectoryError"
  "open_w ''a/logs/out.txt'' [[''a''] \<mapsto> File ''x''] = Inl NotADirectoryError"
  "open_w ''a/logs/out.txt'' [[''a''] \<mapsto> Dir] = Inl FileNotFoundError"
  "open_w ''logs'' [[''logs''] \<mapsto> Dir] = Inl IsADirectoryError"
  by (simp_all add: open_w_def components_def)

lemma open_w_dirs:
  "open_w out f = Inr f2 \<Longrightarrow>
     f2 = f(components out \<mapsto> File []) \<and> f (components out) \<noteq> Some Dir"
  by (auto simp add: open_w_def Let_def split: if_splits option.splits node.splits)

lemma try_dirs:
  "(fs (snd (run_program_try c m out n p flag sp w)) q = Some Dir) = (fs w q = Some Dir)"
  by (auto simp add: run_program_try_def Let_def dest!: open_w_dirs
           split: sum.splits completed.splits if_splits)

lemma all_dirs_cong:
  "(\<And>q. (f' q = Some Dir) = (f q = Some Dir)) \<Longrightarrow> all_dirs pre cs f' = all_dirs pre cs f"
  by (induction cs arbitrary: pre) auto

lemma all_dirs_mono:
  "all_dirs pre cs f \<Longrightarrow> (\<And>q. f q = Some Dir \<Longrightarrow> f' q = Some Dir) \<Longrightarrow> all_dirs pre cs f'"
  by (induction cs arbitrary: pre) auto

lemma makedirs_from_result:
  "makedirs_from pre cs ok f = (None, f') \<Longrightarrow>
     all_dirs pre cs f' \<and> (\<forall>q. f q = Some Dir \<longrightarrow> f' q = Some Dir)"
proof (induction pre cs ok f arbitrary: f' rule: makedirs_from.induct)
  case (1 pre ok f)
  then show ?case by simp
next
  case (2 pre c ok f)
  then show ?case by (auto split: option.splits node.splits if_splits)
next
  case (3 pre c v va ok f)
  show ?case
  proof (cases "f (pre @ [c])")
    case None
    with "3.prems" have r: "makedirs_from (pre @ [c]) (v # va) ok (f(pre @ [c] \<mapsto> Dir)) = (None, f')"
      by simp
    from "3.IH"(1) [OF None r]
    have ih: "all_dirs (pre @ [c]) (v # va) f'"
      "\<forall>q. (f(pre @ [c] \<mapsto> Dir)) q = Some Dir \<longrightarrow> f' q = Some Dir"
      by simp_all
    from ih(2) have "f' (pre @ [c]) = Some Dir" by simp
    moreover from ih(2) None have "\<forall>q. f q = Some Dir \<longrightarrow> f' q = Some Dir"
      by (metis fun_upd_apply)
    ultimately show ?thesis using ih(1) by simp
  next
    case (Some nd)
    show ?thesis
    proof (cases nd)
      case Dir
      with Some "3.prems" have r: "makedirs_from (pre @ [c]) (v # va) ok f = (None, f')"
        by simp
      from "3.IH"(2) [OF Some Dir r]
      have ih: "all_dirs (pre @ [c]) (v # va) f'" "\<forall>q. f q = Some Dir \<longrightarrow> f' q = Some Dir"
        by simp_all
      from ih(2) Some Dir have "f' (pre @ [c]) = Some Dir" by simp
      then show ?thesis using ih by simp
    next
      case (File x)
      with Some "3.prems" show ?thesis by simp
    qed
  qed
qed

lemma makedirs_from_existing:
  "all_dirs pre cs f \<Longrightarrow> ok \<Longrightarrow> makedirs_from pre cs ok f = (None, f)"
  by (induction pre cs ok f rule: makedirs_from.induct) auto

lemma run_program_new_calls:
  "new_calls w (snd (run_program c m out d n p sp w)) =
     (if d \<noteq> []
      then MakeDirs d True #
           (case fst (makedirs d True (fs w)) of
              Some e \<Rightarrow> []
            | None \<Rightarrow>
                (case open_w out (snd (makedirs d True (fs w))) of
                   Inl e \<Rightarrow> [Open out]
                 | Inr f2 \<Rightarrow> [Open out, Spawn [p, c, m, ''-t'' @ str_int n, ''-d'' @ d]]))
      else (case open_w out (fs w) of
              Inl e \<Rightarrow> [Open out]
            | Inr f2 \<Rightarrow> [Open out, Spawn [p, c, m, ''-t'' @ str_int n, []]]))"
  by (simp add: run_program_def new_calls_def split_beta try_calls
           split: option.splits sum.splits)

lemma run_program_true_iff:
  "fst (run_program c m out d n p sp w) = Inr True \<longleftrightarrow>
     (if d \<noteq> []
      then fst (makedirs d True (fs w)) = None
           \<and> (\<exists>f2. open_w out (snd (makedirs d True (fs w))) = Inr f2)
           \<and> (\<exists>so se. sp [p, c, m, ''-t'' @ str_int n, ''-d'' @ d] = Exits 0 so se)
      else (\<exists>f2. open_w out (fs w) = Inr f2)
           \<and> (\<exists>so se. sp [p, c, m, ''-t'' @ str_int n, []] = Exits 0 so se))"
  by (simp add: run_program_def split_beta try_true_iff split: option.splits)

lemma run_program_raises_iff:
  "fst (run_program c m out d n p sp w) = Inl e \<longleftrightarrow>
     d \<noteq> [] \<and> fst (makedirs d True (fs w)) = Some e"
  by (simp add: run_program_def split_beta split: option.splits)

lemma run_program_undecodable_logged:
  assumes "Spawn argv \<in> set (new_calls w (snd (run_program c m out d n p sp w)))"
    and "sp argv = ExitsUndecodable rc so"
  shows "fst (run_program c m out d n p sp w) = Inr False
       \<and> last (console (snd (run_program c m out d n p sp w)))
           = ExceptionFor c m UnicodeDecodeError"
proof (cases "d = []")
  case True
  with assms(1) obtain f2 where o: "open_w out (fs w) = Inr f2"
      and argv: "argv = [p, c, m, ''-t'' @ str_int n, []]"
    by (auto simp add: run_program_new_calls split: sum.splits)
  show ?thesis
    using try_undecodable_logged [OF o, of sp p c m n "[]" rc so] assms(2) True
    by (simp add: run_program_def split_beta argv)
next
  case False
  with assms(1) obtain f2 where mk: "fst (makedirs d True (fs w)) = None"
      and o: "open_w out (snd (makedirs d True (fs w))) = Inr f2"
      and argv: "argv = [p, c, m, ''-t'' @ str_int n, ''-d'' @ d]"
    by (auto simp add: run_program_new_calls split: sum.splits option.splits)
  define w1 where "w1 = w\<lparr>fs := snd (makedirs d True (fs w)),
                            calls := calls w @ [MakeDirs d True]\<rparr>"
  have o1: "open_w out (fs w1) = Inr f2" using o by (simp add: w1_def)
  show ?thesis
    using try_undecodable_logged [OF o1, of sp p c m n "''-d'' @ d" rc so] assms(2) False mk
    by (simp add: run_program_def split_beta argv w1_def)
qed

lemma run_program_error_logged:
  assumes "Spawn argv \<in> set (new_calls w (snd (run_program c m out d n p sp w)))"
    and "sp argv = Exits rc so se" and "rc \<noteq> 0"
  shows "fst (run_program c m out d n p sp w) = Inr False
       \<and> last (console (snd (run_program c m out d n p sp w))) = ErrorFor c m se"
proof (cases "d = []")
  case True
  with assms(1) obtain f2 where o: "open_w out (fs w) = Inr f2"
      and argv: "argv = [p, c, m, ''-t'' @ str_int n, []]"
    by (auto simp add: run_program_new_calls split: sum.splits)
  show ?thesis
    using try_error_logged [OF o, of sp p c m n "[]" rc so se] assms(2,3) True
    by (simp add: run_program_def split_beta argv)
next
  case False
  with assms(1) obtain f2 where mk: "fst (makedirs d True (fs w)) = None"
      and o: "open_w out (snd (makedirs d True (fs w))) = Inr f2"
      and argv: "argv = [p, c, m, ''-t'' @ str_int n, ''-d'' @ d]"
    by (auto simp add: run_program_new_calls split: sum.splits option.splits)
  define w1 where "w1 = w\<lparr>fs := snd (makedirs d True (fs w)),
                            calls := calls w @ [MakeDirs d True]\<rparr>"
  have o1: "open_w out (fs w1) = Inr f2" using o by (simp add: w1_def)
  show ?thesis
    using try_error_logged [OF o1, of sp p c m n "''-d'' @ d" rc so se] assms(2,3) False mk
    by (simp add: run_program_def split_beta argv w1_def)
qed

text \<open>
  Claim C6, as amended. Every argument vector that \<^verbatim>\<open>run_program\<close> hands to
  \<^verbatim>\<open>subprocess.run\<close> has five elements: program, configuration identifier, matrix
  specification, \<^verbatim>\<open>-t\<close> followed by the tile count in decimal, and a fifth element
  that is \<^verbatim>\<open>-d\<close> followed by the profiling directory when one is given and the
  empty string when none is given. A call that returns \<^verbatim>\<open>True\<close> has made such a
  launch.
\<close>

theorem run_program_argument_vector:
  "(Spawn argv \<in> set (new_calls w
        (snd (run_program config matrix output_file profiling_dir numTiles program_path
               subprocess_run w)))
      \<longrightarrow> argv = (if profiling_dir \<noteq> []
                  then [program_path, config, matrix, ''-t'' @ str_int numTiles,
                        ''-d'' @ profiling_dir]
                  else [program_path, config, matrix, ''-t'' @ str_int numTiles, []]))
   \<and> (fst (run_program config matrix output_file profiling_dir numTiles program_path
              subprocess_run w) = Inr True
      \<longrightarrow> (\<exists>argv. Spawn argv \<in> set (new_calls w
             (snd (run_program config matrix output_file profiling_dir numTiles program_path
                    subprocess_run w)))))"
  by (auto simp add: run_program_new_calls run_program_true_iff
           split: option.splits sum.splits if_splits)

text \<open>
  Claim C5, as amended. \<^verbatim>\<open>run_program\<close> returns \<^verbatim>\<open>True\<close> exactly when it reached
  \<^verbatim>\<open>subprocess.run\<close> and that call returned, with return code 0: nothing was raised
  on the way to the launch, by the launch, or while the captured standard error was
  decoded. Whenever \<^verbatim>\<open>subprocess.run\<close> returns with another return code, the result
  is \<^verbatim>\<open>False\<close> and the last line printed carries the captured standard-error text.
  Whenever the process ran but its standard error cannot be decoded, the result is
  \<^verbatim>\<open>False\<close> whatever the return code, and the last line printed carries the
  exception.
\<close>

theorem run_program_success_iff:
  "(fst (run_program config matrix output_file profiling_dir numTiles program_path
           subprocess_run w) = Inr True
      \<longleftrightarrow> (\<exists>argv so se.
             Spawn argv \<in> set (new_calls w
               (snd (run_program config matrix output_file profiling_dir numTiles
                      program_path subprocess_run w)))
             \<and> subprocess_run argv = Exits 0 so se))
   \<and> (\<forall>argv rc so se.
         Spawn argv \<in> set (new_calls w
           (snd (run_program config matrix output_file profiling_dir numTiles program_path
                  subprocess_run w)))
         \<and> subprocess_run argv = Exits rc so se \<and> rc \<noteq> 0
         \<longrightarrow> fst (run_program config matrix output_file profiling_dir numTiles program_path
                   subprocess_run w) = Inr False
             \<and> last (console (snd (run_program config matrix output_file profiling_dir
                   numTiles program_path subprocess_run w)))
                 = ErrorFor config matrix se)
   \<and> (\<forall>argv rc so.
         Spawn argv \<in> set (new_calls w
           (snd (run_program config matrix output_file profiling_dir numTiles program_path
                  subprocess_run w)))
         \<and> subprocess_run argv = ExitsUndecodable rc so
         \<longrightarrow> fst (run_program config matrix output_file profiling_dir numTiles program_path
                   subprocess_run w) = Inr False
             \<and> last (console (snd (run_program config matrix output_file profiling_dir
                   numTiles program_path subprocess_run w)))
                 = ExceptionFor config matrix UnicodeDecodeError)"
proof (intro conjI allI impI)
  show "fst (run_program config matrix output_file profiling_dir numTiles program_path
           subprocess_run w) = Inr True
      \<longleftrightarrow> (\<exists>argv so se.
             Spawn argv \<in> set (new_calls w
               (snd (run_program config matrix output_file profiling_dir numTiles
                      program_path subprocess_run w)))
             \<and> subprocess_run argv = Exits 0 so se)"
    by (auto simp add: run_program_new_calls run_program_true_iff
             split: option.splits sum.splits if_splits)
next
  fix argv rc so se
  assume h: "Spawn argv \<in> set (new_calls w
           (snd (run_program config matrix output_file profiling_dir numTiles program_path
                  subprocess_run w)))
         \<and> subprocess_run argv = Exits rc so se \<and> rc \<noteq> 0"
  then have r: "fst (run_program config matrix output_file profiling_dir numTiles
                   program_path subprocess_run w) = Inr False
       \<and> last (console (snd (run_program config matrix output_file profiling_dir
                   numTiles program_path subprocess_run w))) = ErrorFor config matrix se"
    by (intro run_program_error_logged [of argv _ _ _ _ _ _ _ _ rc so se]) simp_all
  from r show "fst (run_program config matrix output_file profiling_dir numTiles program_path
                   subprocess_run w) = Inr False" by simp
  from r show "last (console (snd (run_program config matrix output_file profiling_dir
                   numTiles program_path subprocess_run w)))
                 = ErrorFor config matrix se" by simp
next
  fix argv rc so
  assume h: "Spawn argv \<in> set (new_calls w
           (snd (run_program config matrix output_file profiling_dir numTiles program_path
                  subprocess_run w)))
         \<and> subprocess_run argv = ExitsUndecodable rc so"
  then have r: "fst (run_program config matrix output_file profiling_dir numTiles
                   program_path subprocess_run w) = Inr False
       \<and> last (console (snd (run_program config matrix output_file profiling_dir
                   numTiles program_path subprocess_run w)))
           = ExceptionFor config matrix UnicodeDecodeError"
    by (intro run_program_undecodable_logged [of argv _ _ _ _ _ _ _ _ rc so]) simp_all
  from r show "fst (run_program config matrix output_file profiling_dir numTiles program_path
                   subprocess_run w) = Inr False" by simp
  from r show "last (console (snd (run_program config matrix output_file profiling_dir
                   numTiles program_path subprocess_run w)))
                 = ExceptionFor config matrix UnicodeDecodeError" by simp
qed

lemma example_attempt_fails:
  "fst (run_program ''cfg'' ''-mA'' ''logs/out.txt'' ''logs/p'' 5888 ''prog''
          (\<lambda>a. Exits 1 ''o'' ''boom'') example_world) = Inr False"
  by (simp add: run_program_def run_program_try_def example_world_def makedirs_def
        components_def open_w_def)

lemma example_new_calls:
  "new_calls example_world
     (snd (run_program ''cfg'' ''-mA'' ''logs/out.txt'' ''logs/p'' 5888 ''prog''
            (\<lambda>a. Exits 1 ''o'' ''boom'') example_world))
   = [MakeDirs ''logs/p'' True, Open ''logs/out.txt'',
      Spawn [''prog'', ''cfg'', ''-mA'', ''-t5888'', ''-dlogs/p'']]"
  by (simp add: run_program_new_calls example_world_def makedirs_def
        components_def open_w_def str_int_def str_pos.simps digit_char_def)

theorem run_program_argument_vector_witness:
  "Spawn [''prog'', ''cfg'', ''-mA'', ''-t5888'', ''-dlogs/p'']
     \<in> set (new_calls example_world
          (snd (run_program ''cfg'' ''-mA'' ''logs/out.txt'' ''logs/p'' 5888 ''prog''
                 (\<lambda>a. Exits 1 ''o'' ''boom'') example_world)))
   \<and> [''prog'', ''cfg'', ''-mA'', ''-t5888'', ''-dlogs/p'']
       = [''prog'', ''cfg'', ''-mA'', ''-t'' @ str_int 5888, ''-d'' @ ''logs/p'']"
  using run_program_argument_vector
    [of "[''prog'', ''cfg'', ''-mA'', ''-t5888'', ''-dlogs/p'']" example_world
        "''cfg''" "''-mA''" "''logs/out.txt''" "''logs/p''" 5888 "''prog''"
        "\<lambda>a. Exits 1 ''o'' ''boom''"]
  by (simp add: example_new_calls)

text \<open>
  Claim C6 as stated fails for a job without profiling directory: the vector is not the
  four-element form, it ends with an extra empty string.
\<close>

theorem run_program_empty_flag_counterexample:
  "new_calls example_world
     (snd (run_program ''cfg'' ''-mA'' ''logs/out.txt'' [] 5888 ''prog''
            (\<lambda>a. Exits 0 [] []) example_world))
     = [Open ''logs/out.txt'', Spawn [''prog'', ''cfg'', ''-mA'', ''-t5888'', []]]
   \<and> length [''prog'', ''cfg'', ''-mA'', ''-t5888'', []] = 5
   \<and> [''prog'', ''cfg'', ''-mA'', ''-t5888'', []] \<noteq> [''prog'', ''cfg'', ''-mA'', ''-t5888'']"
  by (simp add: run_program_new_calls example_world_def
        components_def open_w_def str_int_def str_pos.simps digit_char_def)

theorem run_program_success_iff_witness:
  "Spawn [''prog'', ''cfg'', ''-mA'', ''-t5888'', ''-dlogs/p'']
     \<in> set (new_calls example_world
          (snd (run_program ''cfg'' ''-mA'' ''logs/out.txt'' ''logs/p'' 5888 ''prog''
                 (\<lambda>a. Exits 1 ''o'' ''boom'') example_world)))
   \<and> (1::int) \<noteq> 0
   \<and> fst (run_program ''cfg'' ''-mA'' ''logs/out.txt'' ''logs/p'' 5888 ''prog''
             (\<lambda>a. Exits 1 ''o'' ''boom'') example_world) = Inr False
   \<and> last (console (snd (run_program ''cfg'' ''-mA'' ''logs/out.txt'' ''logs/p'' 5888 ''prog''
             (\<lambda>a. Exits 1 ''o'' ''boom'') example_world)))
       = ErrorFor ''cfg'' ''-mA'' ''boom''"
proof -
  have h: "Spawn [''prog'', ''cfg'', ''-mA'', ''-t5888'', ''-dlogs/p'']
     \<in> set (new_calls example_world
          (snd (run_program ''cfg'' ''-mA'' ''logs/out.txt'' ''logs/p'' 5888 ''prog''
                 (\<lambda>a. Exits 1 ''o'' ''boom'') example_world)))"
    by (simp add: example_new_calls)
  note t = run_program_success_iff
    [of "''cfg''" "''-mA''" "''logs/out.txt''" "''logs/p''" 5888 "''prog''"
        "\<lambda>a. Exits 1 ''o'' ''boom''" example_world]
  have "fst (run_program ''cfg'' ''-mA'' ''logs/out.txt'' ''logs/p'' 5888 ''prog''
             (\<lambda>a. Exits 1 ''o'' ''boom'') example_world) = Inr False
   \<and> last (console (snd (run_program ''cfg'' ''-mA'' ''logs/out.txt'' ''logs/p'' 5888 ''prog''
             (\<lambda>a. Exits 1 ''o'' ''boom'') example_world)))
       = ErrorFor ''cfg'' ''-mA'' ''boom''"
    using t [THEN conjunct2, THEN conjunct1, rule_format,
        of "[''prog'', ''cfg'', ''-mA'', ''-t5888'', ''-dlogs/p'']" 1 "''o''" "''boom''"] h
    by simp
  then show ?thesis using h by simp
qed

text \<open>
  Claim C5 as stated fails on a launch that raised nothing and a process that ended
  with return code 0: its standard error cannot be decoded, \<^verbatim>\<open>subprocess.run\<close>
  raises after the process has ended, and \<^verbatim>\<open>run_program\<close> returns \<^verbatim>\<open>False\<close>.
\<close>

theorem run_program_undecodable_stderr_counterexample:
  "new_calls example_world
     (snd (run_program ''cfg'' ''-mA'' ''logs/out.txt'' [] 5888 ''prog''
            garbled_program example_world))
     = [Open ''logs/out.txt'', Spawn [''prog'', ''cfg'', ''-mA'', ''-t5888'', []]]
   \<and> exit_code (garbled_program [''prog'', ''cfg'', ''-mA'', ''-t5888'', []]) = Some 0
   \<and> fst (run_program ''cfg'' ''-mA'' ''logs/out.txt'' [] 5888 ''prog''
            garbled_program example_world) = Inr False
   \<and> console (snd (run_program ''cfg'' ''-mA'' ''logs/out.txt'' [] 5888 ''prog''
            garbled_program example_world))
       = [Running ''cfg'' ''-mA'' 5888, ExceptionFor ''cfg'' ''-mA'' UnicodeDecodeError]"
  by (simp add: new_calls_def run_program_def run_program_try_def
        example_world_def garbled_program_def
        components_def open_w_def str_int_def str_pos.simps digit_char_def)

text \<open>
  Claim C9 at a failing input: a regular file sits at the path of the profiling
  directory. \<^verbatim>\<open>os.makedirs\<close> raises FileExistsError before the \<^verbatim>\<open>try\<close>
  statement is entered, and the exception leaves \<^verbatim>\<open>run_program\<close> instead of being
  turned into \<^verbatim>\<open>False\<close>; by \<open>run_program_raises_iff\<close> this is the only way out.
\<close>

theorem run_program_makedirs_raises:
  "run_program ''cfg'' ''-mA'' ''logs/out.txt'' ''logs/prof'' 5888 ''prog''
     (\<lambda>a. Exits 0 [] []) blocked_world
   = (Inl FileExistsError, blocked_world\<lparr>calls := [MakeDirs ''logs/prof'' True]\<rparr>)"
  by (simp add: run_program_def blocked_world_def makedirs_def components_def)

lemma run_program_keeps_dirs:
  assumes "d \<noteq> []" and "fst (run_program c m out d n p sp w) = Inr b"
  shows "all_dirs [] (components d) (fs (snd (run_program c m out d n p sp w)))"
proof -
  from assms have mk: "fst (makedirs d True (fs w)) = None"
    by (simp add: run_program_def split_beta split: option.splits)
  have "makedirs d True (fs w) = makedirs_from [] (components d) True (fs w)"
    using assms(1) by (simp add: makedirs_def)
  with mk have "makedirs_from [] (components d) True (fs w)
      = (None, snd (makedirs d True (fs w)))"
    by (metis prod.collapse)
  then have "all_dirs [] (components d) (snd (makedirs d True (fs w)))"
    using makedirs_from_result by blast
  moreover have "all_dirs [] (components d) (fs (snd (run_program c m out d n p sp w)))
      = all_dirs [] (components d) (snd (makedirs d True (fs w)))"
  proof (rule all_dirs_cong)
    fix q
    show "(fs (snd (run_program c m out d n p sp w)) q = Some Dir)
      = (snd (makedirs d True (fs w)) q = Some Dir)"
      using assms(1) mk by (simp add: run_program_def split_beta try_dirs)
  qed
  ultimately show ?thesis by simp
qed

lemma run_program_existing_dir:
  assumes "d \<noteq> []" and "all_dirs [] (components d) (fs w)"
  shows "(\<exists>b. fst (run_program c m out d n p sp w) = Inr b)
       \<and> (\<forall>q. (fs (snd (run_program c m out d n p sp w)) q = Some Dir) = (fs w q = Some Dir))"
proof -
  have mk: "makedirs d True (fs w) = (None, fs w)"
    using assms by (simp add: makedirs_def makedirs_from_existing)
  show ?thesis
    using assms(1) mk by (simp add: run_program_def split_beta try_dirs)
qed

text \<open>
  Claim C10. With an empty profiling directory \<^verbatim>\<open>run_program\<close> makes no
  \<^verbatim>\<open>os.makedirs\<close> request and the directories of the file system are the same
  afterwards. With a non-empty one, the first request is
  \<^verbatim>\<open>os.makedirs(profiling_dir, exist_ok=True)\<close>, and when \<^verbatim>\<open>run_program\<close> returns,
  every component of the path is a directory. When the directory is already there,
  \<^verbatim>\<open>run_program\<close> returns and the directories are the same afterwards. So after an
  attempt that returned, a further attempt for the same job, whatever the program does
  this time, returns too: it never raises because of the directory the earlier attempt
  left.
\<close>

theorem profiling_directory_handling:
  "(\<forall>name ok. MakeDirs name ok \<notin> set (new_calls w
        (snd (run_program config matrix output_file [] numTiles program_path
               subprocess_run w))))
   \<and> (\<forall>q. (fs (snd (run_program config matrix output_file [] numTiles program_path
                  subprocess_run w)) q = Some Dir) = (fs w q = Some Dir))
   \<and> (profiling_dir \<noteq> []
        \<longrightarrow> hd (new_calls w
                (snd (run_program config matrix output_file profiling_dir numTiles
                       program_path subprocess_run w))) = MakeDirs profiling_dir True
            \<and> MakeDirs profiling_dir True \<in> set (new_calls w
                (snd (run_program config matrix output_file profiling_dir numTiles
                       program_path subprocess_run w))))
   \<and> (profiling_dir \<noteq> []
        \<and> fst (run_program config matrix output_file profiling_dir numTiles program_path
                  subprocess_run w) = Inr b
        \<longrightarrow> all_dirs [] (components profiling_dir)
              (fs (snd (run_program config matrix output_file profiling_dir numTiles
                         program_path subprocess_run w))))
   \<and> (profiling_dir \<noteq> [] \<and> all_dirs [] (components profiling_dir) (fs w)
        \<longrightarrow> (\<exists>b'. fst (run_program config matrix output_file profiling_dir numTiles
                    program_path subprocess_run w) = Inr b')
            \<and> (\<forall>q. (fs (snd (run_program config matrix output_file profiling_dir numTiles
                         program_path subprocess_run w)) q = Some Dir)
                    = (fs w q = Some Dir)))
   \<and> (profiling_dir \<noteq> []
        \<and> fst (run_program config matrix output_file profiling_dir numTiles program_path
                  subprocess_run w) = Inr b
        \<longrightarrow> (\<exists>b'. fst (run_program config matrix output_file profiling_dir numTiles
                  program_path subprocess_run'
                  (snd (run_program config matrix output_file profiling_dir numTiles
                         program_path subprocess_run w))) = Inr b'))"
proof (intro conjI allI impI)
  fix name ok
  show "MakeDirs name ok \<notin> set (new_calls w
        (snd (run_program config matrix output_file [] numTiles program_path
               subprocess_run w)))"
    by (simp add: run_program_new_calls split: sum.splits)
next
  fix q
  show "(fs (snd (run_program config matrix output_file [] numTiles program_path
                  subprocess_run w)) q = Some Dir) = (fs w q = Some Dir)"
    by (simp add: run_program_def split_beta try_dirs)
next
  assume "profiling_dir \<noteq> []"
  then show "hd (new_calls w
                (snd (run_program config matrix output_file profiling_dir numTiles
                       program_path subprocess_run w))) = MakeDirs profiling_dir True"
    by (simp add: run_program_new_calls)
next
  assume "profiling_dir \<noteq> []"
  then show "MakeDirs profiling_dir True \<in> set (new_calls w
                (snd (run_program config matrix output_file profiling_dir numTiles
                       program_path subprocess_run w)))"
    by (simp add: run_program_new_calls)
next
  assume "profiling_dir \<noteq> []
        \<and> fst (run_program config matrix output_file profiling_dir numTiles program_path
                  subprocess_run w) = Inr b"
  then show "all_dirs [] (components profiling_dir)
              (fs (snd (run_program config matrix output_file profiling_dir numTiles
                         program_path subprocess_run w)))"
    using run_program_keeps_dirs by blast
next
  assume "profiling_dir \<noteq> [] \<and> all_dirs [] (components profiling_dir) (fs w)"
  then show "\<exists>b'. fst (run_program config matrix output_file profiling_dir numTiles
                    program_path subprocess_run w) = Inr b'"
    using run_program_existing_dir by blast
next
  fix q
  assume "profiling_dir \<noteq> [] \<and> all_dirs [] (components profiling_dir) (fs w)"
  then show "(fs (snd (run_program config matrix output_file profiling_dir numTiles
                         program_path subprocess_run w)) q = Some Dir)
                    = (fs w q = Some Dir)"
    using run_program_existing_dir by blast
next
  assume h: "profiling_dir \<noteq> []
        \<and> fst (run_program config matrix output_file profiling_dir numTiles program_path
                  subprocess_run w) = Inr b"
  define w' where "w' = snd (run_program config matrix output_file profiling_dir numTiles
                         program_path subprocess_run w)"
  have "all_dirs [] (components profiling_dir) (fs w')"
    unfolding w'_def using h run_program_keeps_dirs by blast
  with h have "\<exists>b'. fst (run_program config matrix output_file profiling_dir numTiles
                  program_path subprocess_run' w') = Inr b'"
    using run_program_existing_dir by blast
  then show "\<exists>b'. fst (run_program config matrix output_file profiling_dir numTiles
                  program_path subprocess_run'
                  (snd (run_program config matrix output_file profiling_dir numTiles
                         program_path subprocess_run w))) = Inr b'"
    unfolding w'_def .
qed

lemma example_no_profiling_dir_yet:
  "fs example_world [''logs'', ''p''] = None"
  by (simp add: example_world_def)

theorem profiling_directory_handling_witness:
  "''logs/p'' \<noteq> []
   \<and> fs example_world [''logs'', ''p''] = None
   \<and> fst (run_program ''cfg'' ''-mA'' ''logs/out.txt'' ''logs/p'' 5888 ''prog''
            (\<lambda>a. Exits 1 ''o'' ''boom'') example_world) = Inr False
   \<and> MakeDirs ''logs/p'' True \<in> set (new_calls example_world
         (snd (run_program ''cfg'' ''-mA'' ''logs/out.txt'' ''logs/p'' 5888 ''prog''
                (\<lambda>a. Exits 1 ''o'' ''boom'') example_world)))
   \<and> all_dirs [] [''logs'', ''p'']
         (fs (snd (run_program ''cfg'' ''-mA'' ''logs/out.txt'' ''logs/p'' 5888 ''prog''
                    (\<lambda>a. Exits 1 ''o'' ''boom'') example_world)))
   \<and> (\<exists>b'. fst (run_program ''cfg'' ''-mA'' ''logs/out.txt'' ''logs/p'' 5888 ''prog''
            (\<lambda>a. Exits 0 ''o'' [])
            (snd (run_program ''cfg'' ''-mA'' ''logs/out.txt'' ''logs/p'' 5888 ''prog''
                   (\<lambda>a. Exits 1 ''o'' ''boom'') example_world))) = Inr b')"
proof -
  note t = profiling_directory_handling
    [of example_world "''cfg''" "''-mA''" "''logs/out.txt''" 5888 "''prog''"
        "\<lambda>a. Exits 1 ''o'' ''boom''" "''logs/p''" False
        "\<lambda>a. Exits 0 ''o'' []"]
  have c: "components ''logs/p'' = [''logs'', ''p'']"
    by (simp add: components_def)
  from t [THEN conjunct2, THEN conjunct2, THEN conjunct1]
  have a: "MakeDirs ''logs/p'' True \<in> set (new_calls example_world
         (snd (run_program ''cfg'' ''-mA'' ''logs/out.txt'' ''logs/p'' 5888 ''prog''
                (\<lambda>a. Exits 1 ''o'' ''boom'') example_world)))"
    by simp
  from t [THEN conjunct2, THEN conjunct2, THEN conjunct2, THEN conjunct1]
    example_attempt_fails
  have b: "all_dirs [] (components ''logs/p'')
         (fs (snd (run_program ''cfg'' ''-mA'' ''logs/out.txt'' ''logs/p'' 5888 ''prog''
                    (\<lambda>a. Exits 1 ''o'' ''boom'') example_world)))"
    by simp
  from t [THEN conjunct2, THEN conjunct2, THEN conjunct2, THEN conjunct2, THEN conjunct2]
    example_attempt_fails
  have d: "\<exists>b'. fst (run_program ''cfg'' ''-mA'' ''logs/out.txt'' ''logs/p'' 5888 ''prog''
            (\<lambda>a. Exits 0 ''o'' [])
            (snd (run_program ''cfg'' ''-mA'' ''logs/out.txt'' ''logs/p'' 5888 ''prog''
                   (\<lambda>a. Exits 1 ''o'' ''boom'') example_world))) = Inr b'"
    by simp
  from a b [unfolded c] d example_attempt_fails example_no_profiling_dir_yet
  show ?thesis by simp
qed

section \<open>Properties of the queue and the workers\<close>

lemma filter_update_count:
  "w < length ws \<Longrightarrow>
     int (length (filter P (ws[w := p])))
       = int (length (filter P ws)) - (if P (ws ! w) then 1 else 0) + (if P p then 1 else 0)"
proof (induction ws arbitrary: w)
  case Nil
  then show ?case by simp
next
  case (Cons a ws)
  show ?case
  proof (cases w)
    case 0
    then show ?thesis by simp
  next
    case (Suc k)
    with Cons.prems have "k < length ws" by simp
    from Cons.IH [OF this] Suc show ?thesis by (auto split: if_splits)
  qed
qed

lemma fold_put:
  "items (fold put js q) = items q @ js
   \<and> unfinished_tasks (fold put js q) = unfinished_tasks q + int (length js)"
  by (induction js arbitrary: q) (simp_all add: put_def)

lemma accounted_init: "accounted (init_sched jobs total_units max_workers w)"
  by (simp add: accounted_def init_sched_def fold_put queue_new_def)

lemma worker_step_accounted:
  assumes "accounted s" "w < length (workers s)" "worker_step w s = Some s'"
  shows "accounted s'"
proof (cases "workers s ! w")
  case AtLoopTest
  with assms show ?thesis
    by (auto simp add: worker_step_def set_pc_def accounted_def filter_update_count)
next
  case AtGet
  with assms show ?thesis
    by (auto simp add: worker_step_def set_pc_def accounted_def filter_update_count get_def
             split: list.splits sum.splits)
next
  case (AtEnter j n)
  with assms show ?thesis
    by (auto simp add: worker_step_def set_pc_def accounted_def filter_update_count
             split: option.splits)
next
  case (AtRun j n)
  with assms show ?thesis by (simp add: worker_step_def)
next
  case (AtPut j n)
  with assms show ?thesis
    by (auto simp add: worker_step_def set_pc_def accounted_def filter_update_count put_def)
next
  case (AtExit j n x)
  with assms show ?thesis
    by (auto simp add: worker_step_def set_pc_def accounted_def filter_update_count
             split: option.splits)
next
  case AtTaskDone
  with assms show ?thesis
    by (auto simp add: worker_step_def set_pc_def accounted_def filter_update_count
             task_done_def split: if_splits)
next
  case Returned
  with assms show ?thesis by (simp add: worker_step_def)
next
  case (Died e)
  with assms show ?thesis by (simp add: worker_step_def)
qed

lemma worker_run_accounted:
  assumes "accounted s" "w < length (workers s)" "worker_run p w sp s = Some s'"
  shows "accounted s'"
proof (cases "workers s ! w")
  case (AtRun j n)
  obtain r w' where r: "run_program (job_config j) (job_matrix j) (job_output_file j)
      (job_profiling_dir j) (job_numTiles j) p sp (os s) = (r, w')"
    by (cases "run_program (job_config j) (job_matrix j) (job_output_file j)
      (job_profiling_dir j) (job_numTiles j) p sp (os s)")
  show ?thesis
  proof (cases r)
    case (Inl e)
    with assms AtRun r show ?thesis
      by (auto simp add: worker_run_def set_pc_def accounted_def filter_update_count)
  next
    case (Inr b)
    with assms AtRun r show ?thesis
      by (auto simp add: worker_run_def set_pc_def accounted_def filter_update_count)
  qed
qed (use assms in \<open>simp_all add: worker_run_def\<close>)

lemma step_accounted:
  "accounted s \<Longrightarrow> step p ev s = Some s' \<Longrightarrow> accounted s'"
  by (cases ev) (auto split: if_splits intro: worker_step_accounted worker_run_accounted)

lemma run_accounted:
  "accounted s \<Longrightarrow> run p evs s = Some s' \<Longrightarrow> accounted s'"
proof (induction evs arbitrary: s)
  case Nil
  then show ?case by simp
next
  case (Cons ev evs)
  from Cons.prems(2) obtain s1 where s1: "step p ev s = Some s1" "run p evs s1 = Some s'"
    by (auto split: option.splits)
  have "accounted s1" using Cons.prems(1) s1(1) by (rule step_accounted)
  then show ?case using s1(2) by (rule Cons.IH)
qed

text \<open>
  Claim C2. In every state the scheduler reaches, \<^verbatim>\<open>unfinished_tasks\<close> is the number
  of queued jobs plus the number of attempts in the workers' hands. A worker that met a
  failure is in that count from \<^verbatim>\<open>get\<close> until its \<^verbatim>\<open>task_done\<close>, and the retry
  it puts on the queue is counted from the \<^verbatim>\<open>put\<close>, which comes first; so the counter
  is not zero while a job or a retry is queued or being attempted, and
  \<^verbatim>\<open>task_queue.join()\<close> can return only when the queue is empty and no attempt is in
  any worker's hands.
\<close>

theorem drain_waits_for_retries:
  assumes "run program_path evs (init_sched jobs total_units max_workers w) = Some s"
  shows "unfinished_tasks (task_q s)
           = int (length (items (task_q s))) + int (length (filter in_hand (workers s)))
       \<and> (join_returns (task_q s)
            \<longrightarrow> items (task_q s) = [] \<and> (\<forall>p \<in> set (workers s). \<not> in_hand p))"
proof -
  have acc: "accounted s"
    using accounted_init assms by (rule run_accounted)
  then have eq: "unfinished_tasks (task_q s)
           = int (length (items (task_q s))) + int (length (filter in_hand (workers s)))"
    by (simp add: accounted_def)
  have "join_returns (task_q s)
            \<longrightarrow> items (task_q s) = [] \<and> (\<forall>p \<in> set (workers s). \<not> in_hand p)"
  proof
    assume "join_returns (task_q s)"
    then have "int (length (items (task_q s))) + int (length (filter in_hand (workers s))) = 0"
      using eq by (simp add: join_returns_def)
    then have "length (items (task_q s)) = 0" "length (filter in_hand (workers s)) = 0"
      by linarith+
    then show "items (task_q s) = [] \<and> (\<forall>p \<in> set (workers s). \<not> in_hand p)"
      by (simp add: filter_empty_conv)
  qed
  with eq show ?thesis by simp
qed

lemma example_retry_run:
  "map_option observe
     (run ''prog''
        [Step 0, Step 0, Step 0, RunStep 0 failing_program, Step 0, Step 0, Step 0,
         Step 0, Step 0, Step 0, RunStep 0 succeeding_program, Step 0, Step 0, Step 0]
        (init_sched [example_job] 16 1 example_world))
   = Some (\<lparr>items = [], unfinished_tasks = 0\<rparr>,
           \<lparr>total_ipus = 16, available_ipus = 16\<rparr>, [Returned])"
  by code_simp

theorem drain_waits_for_retries_witness:
  "map_option observe
     (run ''prog''
        [Step 0, Step 0, Step 0, RunStep 0 failing_program, Step 0, Step 0, Step 0,
         Step 0, Step 0, Step 0, RunStep 0 succeeding_program, Step 0, Step 0, Step 0]
        (init_sched [example_job] 16 1 example_world))
   = Some (\<lparr>items = [], unfinished_tasks = 0\<rparr>,
           \<lparr>total_ipus = 16, available_ipus = 16\<rparr>, [Returned])
   \<and> join_returns \<lparr>items = [], unfinished_tasks = 0\<rparr>
   \<and> \<not> in_hand Returned"
proof -
  obtain s where s: "run ''prog''
        [Step 0, Step 0, Step 0, RunStep 0 failing_program, Step 0, Step 0, Step 0,
         Step 0, Step 0, Step 0, RunStep 0 succeeding_program, Step 0, Step 0, Step 0]
        (init_sched [example_job] 16 1 example_world) = Some s"
      and o: "observe s = (\<lparr>items = [], unfinished_tasks = 0\<rparr>,
           \<lparr>total_ipus = 16, available_ipus = 16\<rparr>, [Returned])"
    using example_retry_run by auto
  from drain_waits_for_retries [OF s] o
  have "join_returns \<lparr>items = [], unfinished_tasks = 0\<rparr> \<longrightarrow> \<not> in_hand Returned"
    by (simp add: observe_def)
  moreover have "join_returns \<lparr>items = [], unfinished_tasks = 0\<rparr>"
    by (simp add: join_returns_def)
  ultimately show ?thesis using example_retry_run by simp
qed

lemma step_other_worker:
  assumes "step p ev s = Some s'" "event_worker ev \<noteq> w"
  shows "workers s' ! w = workers s ! w"
proof (cases ev)
  case (Step u)
  with assms have u: "u \<noteq> w" "u < length (workers s)" "worker_step u s = Some s'"
    by (auto simp add: event_worker_def split: if_splits)
  then show ?thesis
    by (cases "workers s ! u")
       (auto simp add: worker_step_def set_pc_def
             split: option.splits sum.splits if_splits prod.splits)
next
  case (RunStep u sp)
  with assms have u: "u \<noteq> w" "u < length (workers s)" "worker_run p u sp s = Some s'"
    by (auto simp add: event_worker_def split: if_splits)
  then show ?thesis
    by (cases "workers s ! u")
       (auto simp add: worker_run_def set_pc_def
             split: option.splits sum.splits if_splits prod.splits)
qed

lemma step_to_returned:
  assumes "step p ev s = Some s'" "w < length (workers s)"
    and "workers s ! w \<noteq> Returned" "workers s' ! w = Returned"
  shows "ev = Step w \<and> workers s ! w = AtLoopTest \<and> items (task_q s) = []"
proof (cases "event_worker ev = w")
  case False
  with assms(1) have "workers s' ! w = workers s ! w" by (rule step_other_worker)
  with assms(3,4) show ?thesis by simp
next
  case True
  show ?thesis
  proof (cases ev)
    case (Step u)
    with True have uw: "u = w" by (simp add: event_worker_def)
    with Step assms(1,2) have ws: "worker_step w s = Some s'" by simp
    show ?thesis
      using ws assms(2,3,4) Step uw
      by (cases "workers s ! w")
         (auto simp add: worker_step_def set_pc_def queue_empty_def
               split: option.splits sum.splits if_splits prod.splits)
  next
    case (RunStep u sp)
    with True have uw: "u = w" by (simp add: event_worker_def)
    with RunStep assms(1,2) have ws: "worker_run p w sp s = Some s'" by simp
    show ?thesis
      using ws assms(2,3,4)
      by (cases "workers s ! w")
         (auto simp add: worker_run_def set_pc_def
               split: option.splits sum.splits if_splits prod.splits)
  qed
qed

text \<open>
  Claim C8, as amended. A worker at the loop test leaves the loop exactly when the
  backing queue is empty at that instant, whatever the other workers hold; and a worker's
  thread ends normally only by such a test.
\<close>

theorem worker_exit_condition:
  "(w < length (workers s) \<and> workers s ! w = AtLoopTest
      \<longrightarrow> step program_path (Step w) s
            = Some (set_pc w (if items (task_q s) = [] then Returned else AtGet) s))
   \<and> (step program_path ev s = Some s' \<and> w < length (workers s)
        \<and> workers s ! w \<noteq> Returned \<and> workers s' ! w = Returned
      \<longrightarrow> ev = Step w \<and> workers s ! w = AtLoopTest \<and> items (task_q s) = [])"
proof (intro conjI impI)
  assume "w < length (workers s) \<and> workers s ! w = AtLoopTest"
  then show "step program_path (Step w) s
            = Some (set_pc w (if items (task_q s) = [] then Returned else AtGet) s)"
    by (simp add: worker_step_def queue_empty_def)
next
  assume h: "step program_path ev s = Some s' \<and> w < length (workers s)
        \<and> workers s ! w \<noteq> Returned \<and> workers s' ! w = Returned"
  then show "ev = Step w" "workers s ! w = AtLoopTest" "items (task_q s) = []"
    using step_to_returned [of program_path ev s s' w] by simp_all
qed

theorem worker_exit_condition_witness:
  "0 < length (workers (init_sched [] 16 1 example_world))
   \<and> workers (init_sched [] 16 1 example_world) ! 0 = AtLoopTest
   \<and> items (task_q (init_sched [] 16 1 example_world)) = []
   \<and> step ''prog'' (Step 0) (init_sched [] 16 1 example_world)
       = Some (set_pc 0 Returned (init_sched [] 16 1 example_world))"
proof -
  define s0 where "s0 = init_sched [] 16 1 example_world"
  have a: "0 < length (workers s0) \<and> workers s0 ! 0 = AtLoopTest"
    by (simp add: s0_def init_sched_def)
  have e: "items (task_q s0) = []"
    by (simp add: s0_def init_sched_def queue_new_def)
  from worker_exit_condition [of 0 s0 "''prog''", THEN conjunct1] a
  have "step ''prog'' (Step 0) s0
       = Some (set_pc 0 (if items (task_q s0) = [] then Returned else AtGet) s0)"
    by blast
  then have st: "step ''prog'' (Step 0) s0 = Some (set_pc 0 Returned s0)"
    by (simp only: e simp_thms if_True)
  from a e st show ?thesis unfolding s0_def by blast
qed

text \<open>
  Claim C8 as stated fails with two workers and one job: worker 1 tests the queue after
  worker 0 has taken the job, finds it empty and returns; the attempt of worker 0 then
  fails and the job is back on the queue, with worker 1 gone.
\<close>

theorem worker_exits_early_counterexample:
  "map_option observe
     (run ''prog'' [Step 0, Step 0, Step 1] (init_sched [example_job] 16 2 example_world))
     = Some (\<lparr>items = [], unfinished_tasks = 1\<rparr>,
             \<lparr>total_ipus = 16, available_ipus = 16\<rparr>,
             [AtEnter example_job 4, Returned])
   \<and> map_option observe
     (run ''prog'' [Step 0, Step 0, Step 1, Step 0, RunStep 0 failing_program, Step 0]
        (init_sched [example_job] 16 2 example_world))
     = Some (\<lparr>items = [example_job], unfinished_tasks = 2\<rparr>,
             \<lparr>total_ipus = 16, available_ipus = 12\<rparr>,
             [AtExit example_job 4 None, Returned])"
  by code_simp

lemma sum_list_holds_update:
  "w < length ws \<Longrightarrow>
     sum_list (map holds (ws[w := p])) = sum_list (map holds ws) - holds (ws ! w) + holds p"
proof (induction ws arbitrary: w)
  case Nil
  then show ?case by simp
next
  case (Cons a ws)
  show ?case
  proof (cases w)
    case 0
    then show ?thesis by simp
  next
    case (Suc k)
    with Cons.prems have "k < length ws" by simp
    from Cons.IH [OF this] Suc show ?thesis by simp
  qed
qed

lemma step_quantum_accounting:
  assumes "total_ipus (ipu_semaphore s) - available_ipus (ipu_semaphore s)
             = sum_list (map holds (workers s))"
    and "step p ev s = Some s'"
  shows "total_ipus (ipu_semaphore s') - available_ipus (ipu_semaphore s')
             = sum_list (map holds (workers s'))"
proof (cases ev)
  case (Step w)
  with assms(2) have w: "w < length (workers s)" "worker_step w s = Some s'"
    by (auto split: if_splits)
  show ?thesis
    using w assms(1)
    by (cases "workers s ! w")
       (auto simp add: worker_step_def set_pc_def sum_list_holds_update enter_def exit_ctx_def
             split: option.splits sum.splits if_splits prod.splits)
next
  case (RunStep w sp)
  with assms(2) have w: "w < length (workers s)" "worker_run p w sp s = Some s'"
    by (auto split: if_splits)
  show ?thesis
    using w assms(1)
    by (cases "workers s ! w")
       (auto simp add: worker_run_def set_pc_def sum_list_holds_update
             split: option.splits sum.splits if_splits prod.splits)
qed

lemma quantum_accounting:
  assumes "run p evs (init_sched jobs total_units max_workers w) = Some s"
  shows "total_ipus (ipu_semaphore s) - available_ipus (ipu_semaphore s)
           = sum_list (map holds (workers s))"
proof -
  have gen: "\<And>s0. total_ipus (ipu_semaphore s0) - available_ipus (ipu_semaphore s0)
             = sum_list (map holds (workers s0)) \<Longrightarrow> run p evs s0 = Some s \<Longrightarrow>
          total_ipus (ipu_semaphore s) - available_ipus (ipu_semaphore s)
             = sum_list (map holds (workers s))"
  proof (induction evs)
    case Nil
    then show ?case by simp
  next
    case (Cons ev evs)
    from Cons.prems(2) obtain s1 where s1: "step p ev s0 = Some s1" "run p evs s1 = Some s"
      by (auto split: option.splits)
    from Cons.prems(1) s1(1) have "total_ipus (ipu_semaphore s1) - available_ipus (ipu_semaphore s1)
             = sum_list (map holds (workers s1))"
      by (rule step_quantum_accounting)
    then show ?case using s1(2) by (rule Cons.IH)
  qed
  have "sum_list (map holds (replicate max_workers AtLoopTest)) = 0"
    by (induction max_workers) simp_all
  then have "total_ipus (ipu_semaphore (init_sched jobs total_units max_workers w))
      - available_ipus (ipu_semaphore (init_sched jobs total_units max_workers w))
      = sum_list (map holds (workers (init_sched jobs total_units max_workers w)))"
    by (simp add: init_sched_def IPUSemaphore_init_def)
  then show ?thesis using assms by (rule gen)
qed

lemma step_at_run:
  assumes "w < length (workers s)" and "workers s ! w = AtRun j n"
  shows "step program_path (Step w) s = None"
    and "\<exists>s1. step program_path (RunStep w subprocess_run) s = Some s1
          \<and> workers s1 ! w
              = (case fst (run_program (job_config j) (job_matrix j) (job_output_file j)
                        (job_profiling_dir j) (job_numTiles j) program_path subprocess_run
                        (os s)) of
                   Inl e \<Rightarrow> AtExit j n (Some e)
                 | Inr successfull \<Rightarrow> if \<not> successfull then AtPut j n else AtExit j n None)
          \<and> ipu_semaphore s1 = ipu_semaphore s \<and> task_q s1 = task_q s"
  using assms
  by (simp_all add: worker_step_def worker_run_def set_pc_def split_beta split: sum.splits)

text \<open>
  Claim C4, as amended. The worker leaves \<^verbatim>\<open>run_program\<close> only by the call itself,
  and in each of its three outcomes the semaphore and the queue are as before: after
  \<^verbatim>\<open>False\<close> the worker is before the \<^verbatim>\<open>put\<close>, after \<^verbatim>\<open>True\<close> it is before
  \<^verbatim>\<open>__exit__\<close> with no exception, after an exception it is before \<^verbatim>\<open>__exit__\<close>
  with that exception. The step at the \<^verbatim>\<open>put\<close> puts the job back on the queue with
  the semaphore untouched (by \<open>quantum_accounting\<close> its quantum is still counted as
  held) and leads to \<^verbatim>\<open>__exit__\<close>. The step at \<^verbatim>\<open>__exit__\<close> gives the quantum
  back in every case, and leads to \<^verbatim>\<open>task_done\<close>, or ends the thread when an exception
  is propagating. The steps of other workers do not move this worker.
\<close>

theorem failed_attempt_order:
  "(w < length (workers s) \<and> workers s ! w = AtRun j n
      \<and> fst (run_program (job_config j) (job_matrix j) (job_output_file j)
               (job_profiling_dir j) (job_numTiles j) program_path subprocess_run (os s))
          = Inr False
      \<longrightarrow> (\<exists>s1. step program_path (RunStep w subprocess_run) s = Some s1
             \<and> workers s1 ! w = AtPut j n
             \<and> ipu_semaphore s1 = ipu_semaphore s \<and> task_q s1 = task_q s))
   \<and> (w < length (workers s) \<and> workers s ! w = AtRun j n
      \<and> fst (run_program (job_config j) (job_matrix j) (job_output_file j)
               (job_profiling_dir j) (job_numTiles j) program_path subprocess_run (os s))
          = Inr True
      \<longrightarrow> (\<exists>s1. step program_path (RunStep w subprocess_run) s = Some s1
             \<and> workers s1 ! w = AtExit j n None
             \<and> ipu_semaphore s1 = ipu_semaphore s \<and> task_q s1 = task_q s))
   \<and> (w < length (workers s) \<and> workers s ! w = AtRun j n
      \<and> fst (run_program (job_config j) (job_matrix j) (job_output_file j)
               (job_profiling_dir j) (job_numTiles j) program_path subprocess_run (os s))
          = Inl e
      \<longrightarrow> (\<exists>s1. step program_path (RunStep w subprocess_run) s = Some s1
             \<and> workers s1 ! w = AtExit j n (Some e)
             \<and> ipu_semaphore s1 = ipu_semaphore s \<and> task_q s1 = task_q s))
   \<and> (w < length (workers s) \<and> workers s ! w = AtRun j n
      \<longrightarrow> step program_path (Step w) s = None)
   \<and> (w < length (workers s) \<and> workers s ! w = AtPut j n
      \<longrightarrow> (\<exists>s2. step program_path (Step w) s = Some s2
             \<and> task_q s2 = put j (task_q s) \<and> ipu_semaphore s2 = ipu_semaphore s
             \<and> workers s2 ! w = AtExit j n None))
   \<and> (w < length (workers s) \<and> workers s ! w = AtExit j n x
      \<longrightarrow> (\<exists>s3. step program_path (Step w) s = Some s3
             \<and> ipu_semaphore s3 = exit_ctx n (ipu_semaphore s) \<and> task_q s3 = task_q s
             \<and> workers s3 ! w = (case x of None \<Rightarrow> AtTaskDone | Some e \<Rightarrow> Died e)))
   \<and> (step program_path ev s = Some s' \<and> event_worker ev \<noteq> w
      \<longrightarrow> workers s' ! w = workers s ! w)"
proof (intro conjI impI)
  assume h: "w < length (workers s) \<and> workers s ! w = AtRun j n
      \<and> fst (run_program (job_config j) (job_matrix j) (job_output_file j)
               (job_profiling_dir j) (job_numTiles j) program_path subprocess_run (os s))
          = Inr False"
  then show "\<exists>s1. step program_path (RunStep w subprocess_run) s = Some s1
             \<and> workers s1 ! w = AtPut j n
             \<and> ipu_semaphore s1 = ipu_semaphore s \<and> task_q s1 = task_q s"
    using step_at_run(2) [of w s j n program_path subprocess_run] by simp
next
  assume h: "w < length (workers s) \<and> workers s ! w = AtRun j n
      \<and> fst (run_program (job_config j) (job_matrix j) (job_output_file j)
               (job_profiling_dir j) (job_numTiles j) program_path subprocess_run (os s))
          = Inr True"
  then show "\<exists>s1. step program_path (RunStep w subprocess_run) s = Some s1
             \<and> workers s1 ! w = AtExit j n None
             \<and> ipu_semaphore s1 = ipu_semaphore s \<and> task_q s1 = task_q s"
    using step_at_run(2) [of w s j n program_path subprocess_run] by simp
next
  assume h: "w < length (workers s) \<and> workers s ! w = AtRun j n
      \<and> fst (run_program (job_config j) (job_matrix j) (job_output_file j)
               (job_profiling_dir j) (job_numTiles j) program_path subprocess_run (os s))
          = Inl e"
  then show "\<exists>s1. step program_path (RunStep w subprocess_run) s = Some s1
             \<and> workers s1 ! w = AtExit j n (Some e)
             \<and> ipu_semaphore s1 = ipu_semaphore s \<and> task_q s1 = task_q s"
    using step_at_run(2) [of w s j n program_path subprocess_run] by simp
next
  assume "w < length (workers s) \<and> workers s ! w = AtRun j n"
  then show "step program_path (Step w) s = None"
    using step_at_run(1) [of w s j n program_path] by simp
next
  assume "w < length (workers s) \<and> workers s ! w = AtPut j n"
  then show "\<exists>s2. step program_path (Step w) s = Some s2
             \<and> task_q s2 = put j (task_q s) \<and> ipu_semaphore s2 = ipu_semaphore s
             \<and> workers s2 ! w = AtExit j n None"
    by (simp add: worker_step_def set_pc_def)
next
  assume "w < length (workers s) \<and> workers s ! w = AtExit j n x"
  then show "\<exists>s3. step program_path (Step w) s = Some s3
             \<and> ipu_semaphore s3 = exit_ctx n (ipu_semaphore s) \<and> task_q s3 = task_q s
             \<and> workers s3 ! w = (case x of None \<Rightarrow> AtTaskDone | Some e \<Rightarrow> Died e)"
    by (simp add: worker_step_def set_pc_def)
next
  assume "step program_path ev s = Some s' \<and> event_worker ev \<noteq> w"
  then show "workers s' ! w = workers s ! w"
    using step_other_worker [of program_path ev s s' w] by simp
qed

lemma example_run_fails:
  "fst (run_program (job_config example_job) (job_matrix example_job)
          (job_output_file example_job) (job_profiling_dir example_job)
          (job_numTiles example_job) ''prog'' failing_program (os running_sched))
   = Inr False"
  by (simp add: run_program_def run_program_try_def running_sched_def example_job_def
        example_world_def failing_program_def components_def open_w_def)

lemma example_run_succeeds:
  "fst (run_program (job_config example_job) (job_matrix example_job)
          (job_output_file example_job) (job_profiling_dir example_job)
          (job_numTiles example_job) ''prog'' succeeding_program (os running_sched))
   = Inr True"
  by (simp add: run_program_def run_program_try_def running_sched_def example_job_def
        example_world_def succeeding_program_def components_def open_w_def)

lemma example_run_raises:
  "fst (run_program (job_config profiled_job) (job_matrix profiled_job)
          (job_output_file profiled_job) (job_profiling_dir profiled_job)
          (job_numTiles profiled_job) ''prog'' succeeding_program (os raising_sched))
   = Inl FileExistsError"
  by (simp add: run_program_def raising_sched_def profiled_job_def
        blocked_world_def makedirs_def components_def)

theorem failed_attempt_order_witness:
  "0 < length (workers running_sched) \<and> workers running_sched ! 0 = AtRun example_job 4
   \<and> fst (run_program (job_config example_job) (job_matrix example_job)
          (job_output_file example_job) (job_profiling_dir example_job)
          (job_numTiles example_job) ''prog'' failing_program (os running_sched))
       = Inr False
   \<and> (\<exists>s1. step ''prog'' (RunStep 0 failing_program) running_sched = Some s1
          \<and> workers s1 ! 0 = AtPut example_job 4
          \<and> ipu_semaphore s1 = \<lparr>total_ipus = 16, available_ipus = 12\<rparr>
          \<and> task_q s1 = \<lparr>items = [], unfinished_tasks = 1\<rparr>)
   \<and> fst (run_program (job_config example_job) (job_matrix example_job)
          (job_output_file example_job) (job_profiling_dir example_job)
          (job_numTiles example_job) ''prog'' succeeding_program (os running_sched))
       = Inr True
   \<and> (\<exists>s1. step ''prog'' (RunStep 0 succeeding_program) running_sched = Some s1
          \<and> workers s1 ! 0 = AtExit example_job 4 None
          \<and> ipu_semaphore s1 = \<lparr>total_ipus = 16, available_ipus = 12\<rparr>
          \<and> task_q s1 = \<lparr>items = [], unfinished_tasks = 1\<rparr>)
   \<and> 0 < length (workers raising_sched) \<and> workers raising_sched ! 0 = AtRun profiled_job 4
   \<and> fst (run_program (job_config profiled_job) (job_matrix profiled_job)
          (job_output_file profiled_job) (job_profiling_dir profiled_job)
          (job_numTiles profiled_job) ''prog'' succeeding_program (os raising_sched))
       = Inl FileExistsError
   \<and> (\<exists>s1. step ''prog'' (RunStep 0 succeeding_program) raising_sched = Some s1
          \<and> workers s1 ! 0 = AtExit profiled_job 4 (Some FileExistsError)
          \<and> ipu_semaphore s1 = \<lparr>total_ipus = 16, available_ipus = 12\<rparr>
          \<and> task_q s1 = \<lparr>items = [], unfinished_tasks = 1\<rparr>)"
proof -
  have a: "0 < length (workers running_sched) \<and> workers running_sched ! 0 = AtRun example_job 4"
    by (simp add: running_sched_def)
  have q: "ipu_semaphore running_sched = \<lparr>total_ipus = 16, available_ipus = 12\<rparr>"
      "task_q running_sched = \<lparr>items = [], unfinished_tasks = 1\<rparr>"
    by (simp_all add: running_sched_def)
  have a': "0 < length (workers raising_sched) \<and> workers raising_sched ! 0 = AtRun profiled_job 4"
    by (simp add: raising_sched_def)
  have q': "ipu_semaphore raising_sched = \<lparr>total_ipus = 16, available_ipus = 12\<rparr>"
      "task_q raising_sched = \<lparr>items = [], unfinished_tasks = 1\<rparr>"
    by (simp_all add: raising_sched_def)
  from failed_attempt_order
    [of 0 running_sched example_job 4 "''prog''" failing_program, THEN conjunct1]
    a example_run_fails
  have f: "\<exists>s1. step ''prog'' (RunStep 0 failing_program) running_sched = Some s1
          \<and> workers s1 ! 0 = AtPut example_job 4
          \<and> ipu_semaphore s1 = ipu_semaphore running_sched
          \<and> task_q s1 = task_q running_sched"
    by blast
  from failed_attempt_order
    [of 0 running_sched example_job 4 "''prog''" succeeding_program,
     THEN conjunct2, THEN conjunct1]
    a example_run_succeeds
  have t: "\<exists>s1. step ''prog'' (RunStep 0 succeeding_program) running_sched = Some s1
          \<and> workers s1 ! 0 = AtExit example_job 4 None
          \<and> ipu_semaphore s1 = ipu_semaphore running_sched
          \<and> task_q s1 = task_q running_sched"
    by blast
  from failed_attempt_order
    [of 0 raising_sched profiled_job 4 "''prog''" succeeding_program FileExistsError,
     THEN conjunct2, THEN conjunct2, THEN conjunct1]
    a' example_run_raises
  have r: "\<exists>s1. step ''prog'' (RunStep 0 succeeding_program) raising_sched = Some s1
          \<and> workers s1 ! 0 = AtExit profiled_job 4 (Some FileExistsError)
          \<and> ipu_semaphore s1 = ipu_semaphore raising_sched
          \<and> task_q s1 = task_q raising_sched"
    by blast
  from f t r show ?thesis
    using a a' example_run_fails example_run_succeeds example_run_raises
    by (simp only: q q' simp_thms)
qed

text \<open>
  Claim C4 as stated, release first and re-enqueue afterwards, fails on the run of one
  failing attempt: when the job is back on the queue only 12 of the 16 units are
  available, and the release comes with the next step.
\<close>

theorem requeue_before_release_counterexample:
  "map_option observe
     (run ''prog'' [Step 0, Step 0, Step 0, RunStep 0 failing_program, Step 0]
        (init_sched [example_job] 16 1 example_world))
     = Some (\<lparr>items = [example_job], unfinished_tasks = 2\<rparr>,
             \<lparr>total_ipus = 16, available_ipus = 12\<rparr>,
             [AtExit example_job 4 None])
   \<and> map_option observe
     (run ''prog'' [Step 0, Step 0, Step 0, RunStep 0 failing_program, Step 0, Step 0]
        (init_sched [example_job] 16 1 example_world))
     = Some (\<lparr>items = [example_job], unfinished_tasks = 2\<rparr>,
             \<lparr>total_ipus = 16, available_ipus = 16\<rparr>,
             [AtTaskDone])"
  by code_simp

end
